theory Spec2Isabelle
  imports Complex_Main "HOL-Library.Sublist" "HOL-Library.AList" "HOL-Library.Multiset"
begin

section \<open>Python values and exceptions\<close>

text \<open>
  The circuit engine is Python. Exceptions are values of the type \<open>error\<close>; a fallible
  function returns \<open>error + 'a\<close> with \<open>Inl\<close> for the raise. A float is the real number
  it denotes. The solver is given twice: first in exact arithmetic, where no operation
  rounds, then, in the section on double precision, with every operation rounded as the
  program rounds it. Infinities and NaN are outside the model.
\<close>

datatype error =
    KeyError
  | ValueError
  | TypeError
  | AttributeError
  | ZeroDivisionError
  | IndexError
  | LinAlgError

text \<open>\<open>str(e)\<close> for the exceptions whose text reaches a response.\<close>

fun error_str :: "error \<Rightarrow> string" where
  "error_str LinAlgError = ''Singular matrix''"
| "error_str ZeroDivisionError = ''float division by zero''"
| "error_str KeyError = ''KeyError''"
| "error_str ValueError = ''ValueError''"
| "error_str TypeError = ''TypeError''"
| "error_str AttributeError = ''AttributeError''"
| "error_str IndexError = ''IndexError''"

text \<open>Sequencing of fallible steps: the first raise ends the computation.\<close>

definition and_then :: "error + 'a \<Rightarrow> ('a \<Rightarrow> error + 'b) \<Rightarrow> error + 'b" where
  "and_then r f = (case r of Inl e \<Rightarrow> Inl e | Inr v \<Rightarrow> f v)"

text \<open>The values a decoded JSON request (or a direct caller) hands to the engine.\<close>

datatype pyval =
    PNone
  | PBool bool
  | PInt int
  | PFloat real
  | PStr string
  | PList "pyval list"
  | PDict "(string \<times> pyval) list"

subsection \<open>Strings: \<open>upper\<close>, \<open>strip\<close>, \<open>in\<close>, \<open>int\<close>\<close>

definition upper_char :: "char \<Rightarrow> char" where
  "upper_char c =
     (if 97 \<le> (of_char c :: nat) \<and> (of_char c :: nat) \<le> 122
      then char_of ((of_char c :: nat) - 32) else c)"

definition upper :: "string \<Rightarrow> string" where
  "upper s = map upper_char s"

definition is_space :: "char \<Rightarrow> bool" where
  "is_space c = ((of_char c :: nat) \<in> {9, 10, 11, 12, 13, 28, 29, 30, 31, 32})"

definition strip :: "string \<Rightarrow> string" where
  "strip s = rev (dropWhile is_space (rev (dropWhile is_space s)))"

text \<open>\<open>p in s\<close> on strings: \<open>p\<close> occurs in \<open>s\<close> as a contiguous substring.\<close>

fun contains :: "string \<Rightarrow> string \<Rightarrow> bool" where
  "contains [] p = (p = [])"
| "contains (c # cs) p = (prefix p (c # cs) \<or> contains cs p)"

definition is_digit :: "char \<Rightarrow> bool" where
  "is_digit c = (48 \<le> (of_char c :: nat) \<and> (of_char c :: nat) \<le> 57)"

definition digit_val :: "char \<Rightarrow> int" where
  "digit_val c = int (of_char c :: nat) - 48"

text \<open>
  The digits of an integer literal, with Python's single underscores between digits
  removed; \<open>None\<close> where the literal is malformed.
\<close>

fun digit_groups :: "string \<Rightarrow> string option" where
  "digit_groups [] = None"
| "digit_groups [c] = (if is_digit c then Some [c] else None)"
| "digit_groups (c # d # cs) =
     (if is_digit c then
        (if d = CHR ''_'' then map_option (\<lambda>r. c # r) (digit_groups cs)
         else map_option (\<lambda>r. c # r) (digit_groups (d # cs)))
      else None)"

definition digits_value :: "string \<Rightarrow> int" where
  "digits_value ds = foldl (\<lambda>acc c. 10 * acc + digit_val c) 0 ds"

text \<open>
  \<open>int(s)\<close> for a string: surrounding whitespace, an optional sign, decimal digits.
  Anything else raises \<open>ValueError\<close>. (ASCII only.)
\<close>

definition int_of_string :: "string \<Rightarrow> error + int" where
  "int_of_string s =
     (case strip s of
        [] \<Rightarrow> Inl ValueError
      | c # cs \<Rightarrow>
          (if c = CHR ''-'' then
             (case digit_groups cs of None \<Rightarrow> Inl ValueError
              | Some ds \<Rightarrow> Inr (- digits_value ds))
           else if c = CHR ''+'' then
             (case digit_groups cs of None \<Rightarrow> Inl ValueError
              | Some ds \<Rightarrow> Inr (digits_value ds))
           else
             (case digit_groups (c # cs) of None \<Rightarrow> Inl ValueError
              | Some ds \<Rightarrow> Inr (digits_value ds))))"

text \<open>\<open>int(v)\<close>: a float is truncated towards zero.\<close>

definition trunc :: "real \<Rightarrow> int" where
  "trunc r = (if 0 \<le> r then \<lfloor>r\<rfloor> else \<lceil>r\<rceil>)"

fun py_int :: "pyval \<Rightarrow> error + int" where
  "py_int (PInt i) = Inr i"
| "py_int (PBool b) = Inr (if b then 1 else 0)"
| "py_int (PFloat r) = Inr (trunc r)"
| "py_int (PStr s) = int_of_string s"
| "py_int PNone = Inl TypeError"
| "py_int (PList xs) = Inl TypeError"
| "py_int (PDict kvs) = Inl TypeError"

text \<open>
  \<open>float(v)\<close>. Python's parser of float literals is a library function; it is the
  parameter \<open>str_to_float\<close>, which gives \<open>None\<close> where \<open>float(s)\<close> raises \<open>ValueError\<close>.
\<close>

fun py_float :: "(string \<Rightarrow> real option) \<Rightarrow> pyval \<Rightarrow> error + real" where
  "py_float str_to_float (PInt i) = Inr (of_int i)"
| "py_float str_to_float (PBool b) = Inr (if b then 1 else 0)"
| "py_float str_to_float (PFloat r) = Inr r"
| "py_float str_to_float (PStr s) =
     (case str_to_float s of None \<Rightarrow> Inl ValueError | Some r \<Rightarrow> Inr r)"
| "py_float str_to_float PNone = Inl TypeError"
| "py_float str_to_float (PList xs) = Inl TypeError"
| "py_float str_to_float (PDict kvs) = Inl TypeError"

section \<open>Component model (models/circuit\_components.py)\<close>

datatype kind = Resistor | VoltageSource | CurrentSource

text \<open>
  A component object. \<open>comp_id\<close> stands for \<open>str(uuid.uuid4())\<close>: the caller of the
  constructor supplies the identifier that the draw produced.
\<close>

record component =
  comp_id :: nat
  comp_class :: kind
  comp_value :: real
  node1 :: int
  node2 :: int

text \<open>
  \<open>Component._parse_node\<close>: \<open>str(node).upper() == 'GND'\<close> gives 0, otherwise
  \<open>int(node)\<close>. Only a string can print as \<open>GND\<close>.
\<close>

fun is_gnd :: "pyval \<Rightarrow> bool" where
  "is_gnd (PStr s) = (upper s = ''GND'')"
| "is_gnd v = False"

definition parse_node :: "pyval \<Rightarrow> error + int" where
  "parse_node node = (if is_gnd node then Inr 0 else py_int node)"

text \<open>\<open>Component.__init__(value, node1, node2)\<close> for the class \<open>k\<close>, drawing the id \<open>i\<close>.\<close>

definition new_component ::
  "(string \<Rightarrow> real option) \<Rightarrow> kind \<Rightarrow> nat \<Rightarrow> pyval \<Rightarrow> pyval \<Rightarrow> pyval \<Rightarrow> error + component" where
  "new_component str_to_float k i v n1 n2 =
     and_then (py_float str_to_float v) (\<lambda>x.
     and_then (parse_node n1) (\<lambda>a.
     and_then (parse_node n2) (\<lambda>b.
       Inr \<lparr>comp_id = i, comp_class = k, comp_value = x, node1 = a, node2 = b\<rparr>)))"

section \<open>Circuit model (models/circuit\_model.py)\<close>

text \<open>
  \<open>components\<close> is the dict from id to component, in insertion order. \<open>nodes\<close> is the
  set of node identifiers, kept as a list without duplicates. The multigraph is the list
  of its nodes and the list of its keyed edges \<open>(u, v, key, component)\<close>, both in
  insertion order.
\<close>

record circuit_model =
  components :: "component list"
  nodes :: "int list"
  graph_nodes :: "int list"
  graph_edges :: "(int \<times> int \<times> nat \<times> component) list"
  reference_node :: int

definition new_model :: circuit_model where
  "new_model = \<lparr>components = [], nodes = [], graph_nodes = [], graph_edges = [],
                reference_node = 0\<rparr>"

text \<open>\<open>d[key] = c\<close>: an existing key keeps its place, a new key goes last.\<close>

fun dict_set :: "component list \<Rightarrow> component \<Rightarrow> component list" where
  "dict_set [] c = [c]"
| "dict_set (d # ds) c = (if comp_id d = comp_id c then c # ds else d # dict_set ds c)"

text \<open>\<open>s.add(n)\<close> on a set.\<close>

definition set_add :: "int list \<Rightarrow> int \<Rightarrow> int list" where
  "set_add s n = (if n \<in> set s then s else s @ [n])"

definition same_edge :: "int \<Rightarrow> int \<Rightarrow> nat \<Rightarrow> (int \<times> int \<times> nat \<times> component) \<Rightarrow> bool" where
  "same_edge u v k e =
     (case e of (a, b, k', c) \<Rightarrow> k' = k \<and> ((a = u \<and> b = v) \<or> (a = v \<and> b = u)))"

text \<open>\<open>MultiGraph.add_edge(u, v, key, component=c)\<close>: an edge with this key between
  these two nodes has its data replaced; otherwise the edge is new.\<close>

fun add_edge ::
  "(int \<times> int \<times> nat \<times> component) list \<Rightarrow> int \<Rightarrow> int \<Rightarrow> nat \<Rightarrow> component
     \<Rightarrow> (int \<times> int \<times> nat \<times> component) list" where
  "add_edge [] u v k c = [(u, v, k, c)]"
| "add_edge (e # es) u v k c =
     (if same_edge u v k e then (fst e, fst (snd e), k, c) # es
      else e # add_edge es u v k c)"

text \<open>\<open>CircuitModel.add_component\<close>. It has no check and no raise.\<close>

definition add_component :: "circuit_model \<Rightarrow> component \<Rightarrow> circuit_model" where
  "add_component m c =
     m\<lparr>components := dict_set (components m) c,
       graph_nodes := set_add (set_add (graph_nodes m) (node1 c)) (node2 c),
       graph_edges := add_edge (graph_edges m) (node1 c) (node2 c) (comp_id c) c,
       nodes := set_add (set_add (nodes m) (node1 c)) (node2 c)\<rparr>"

text \<open>
  \<open>CircuitModel.set_reference_node\<close>: the argument is converted (\<open>GND\<close> is 0), then
  the node is put into the node set and the graph if it is missing, and marked.
\<close>

definition mark_reference :: "circuit_model \<Rightarrow> int \<Rightarrow> circuit_model" where
  "mark_reference m n =
     (if n \<notin> set (nodes m)
      then m\<lparr>nodes := set_add (nodes m) n, graph_nodes := set_add (graph_nodes m) n,
             reference_node := n\<rparr>
      else m\<lparr>reference_node := n\<rparr>)"

definition set_reference_node :: "circuit_model \<Rightarrow> pyval \<Rightarrow> error + circuit_model" where
  "set_reference_node m node =
     and_then (if is_gnd node then Inr 0 else py_int node) (\<lambda>n. Inr (mark_reference m n))"

text \<open>\<open>CircuitModel.get_non_reference_nodes\<close>.\<close>

definition get_non_reference_nodes :: "circuit_model \<Rightarrow> int list" where
  "get_non_reference_nodes m = sort (filter (\<lambda>n. n \<noteq> reference_node m) (nodes m))"

text \<open>
  The circuit built the way the callers build it: the components added one after
  another to a new model, then the reference node set to the integer \<open>r\<close>.
\<close>

definition add_all :: "circuit_model \<Rightarrow> component list \<Rightarrow> circuit_model" where
  "add_all m cs = foldl add_component m cs"

definition make_circuit :: "component list \<Rightarrow> int \<Rightarrow> circuit_model" where
  "make_circuit cs r = mark_reference (add_all new_model cs) r"

text \<open>The components of one class, in the dict's order.\<close>

definition of_class :: "kind \<Rightarrow> circuit_model \<Rightarrow> component list" where
  "of_class k m = filter (\<lambda>c. comp_class c = k) (components m)"

section \<open>Topology analyzer (analysis\_strategies.py)\<close>

text \<open>
  \<open>nx.connected_components\<close> is a library function: it yields the connected components
  of an undirected graph as sets, in an order that is its own. It is modelled by its
  contract: the classes start as the single nodes and every edge merges the classes of
  its two ends (\<open>add_edge\<close> first puts a missing end into the graph). A class is a list
  without duplicates; the order of the classes and inside a class carries no meaning.
\<close>

definition touches :: "int \<Rightarrow> int \<Rightarrow> int list \<Rightarrow> bool" where
  "touches u v c = (u \<in> set c \<or> v \<in> set c)"

definition ensure_node :: "int list list \<Rightarrow> int \<Rightarrow> int list list" where
  "ensure_node cls u = (if u \<in> set (concat cls) then cls else cls @ [[u]])"

definition merge_edge :: "int list list \<Rightarrow> int \<times> int \<Rightarrow> int list list" where
  "merge_edge cls e =
     (case e of (u, v) \<Rightarrow>
        (let cls' = ensure_node (ensure_node cls u) v
         in concat (filter (touches u v) cls') # filter (\<lambda>c. \<not> touches u v c) cls'))"

definition connected_components :: "int list \<Rightarrow> (int \<times> int) list \<Rightarrow> int list list" where
  "connected_components ns es = foldl merge_edge (map (\<lambda>n. [n]) ns) es"

text \<open>\<open>NodalAnalysis._find_supernodes\<close>.\<close>

definition find_supernodes :: "circuit_model \<Rightarrow> int list list" where
  "find_supernodes m =
     filter (\<lambda>c. length c > 1)
       (connected_components (nodes m)
          (map (\<lambda>vs. (node1 vs, node2 vs)) (of_class VoltageSource m)))"

text \<open>\<open>NodalAnalysis._get_grounded_supernodes\<close>.\<close>

definition get_grounded_supernodes :: "circuit_model \<Rightarrow> int list list \<Rightarrow> int list list" where
  "get_grounded_supernodes m sns = filter (\<lambda>sn. reference_node m \<in> set sn) sns"

text \<open>The summary that \<open>NodalAnalysis._analyze\<close> returns (the fixed texts left out).\<close>

record analysis =
  a_reference_node :: int
  non_reference_nodes :: "int list"
  num_non_reference_nodes :: nat
  supernodes :: "int list list"
  grounded_supernodes :: "int list list"
  ungrounded_supernodes :: "int list list"
  regular_nodes :: "int list"
  num_kcl_equations :: nat
  num_constraint_equations :: nat
  num_voltage_sources :: nat
  total_equations :: nat

definition analyze :: "circuit_model \<Rightarrow> analysis" where
  "analyze m =
     (let non_ref_nodes = get_non_reference_nodes m;
          voltage_sources = of_class VoltageSource m;
          sns = find_supernodes m;
          regular = filter (\<lambda>n. \<not> list_ex (\<lambda>sn. n \<in> set sn) sns) non_ref_nodes;
          ungrounded = filter (\<lambda>sn. reference_node m \<notin> set sn) sns;
          num_kcl = length regular + length ungrounded;
          num_constraint = length voltage_sources
      in \<lparr>a_reference_node = reference_node m,
          non_reference_nodes = non_ref_nodes,
          num_non_reference_nodes = length non_ref_nodes,
          supernodes = sns,
          grounded_supernodes = get_grounded_supernodes m sns,
          ungrounded_supernodes = filter (\<lambda>sn. reference_node m \<notin> set sn) sns,
          regular_nodes = regular,
          num_kcl_equations = num_kcl,
          num_constraint_equations = num_constraint,
          num_voltage_sources = length voltage_sources,
          total_equations = num_kcl + num_constraint\<rparr>)"

subsection \<open>The circuit of \<open>test.py\<close>\<close>

text \<open>
  \<open>test_equations\<close> builds this circuit (the ids are the positions): two voltage
  sources, four resistors and two current sources, reference node 0.
\<close>

definition comp :: "nat \<Rightarrow> kind \<Rightarrow> real \<Rightarrow> int \<Rightarrow> int \<Rightarrow> component" where
  "comp i k v a b = \<lparr>comp_id = i, comp_class = k, comp_value = v, node1 = a, node2 = b\<rparr>"

definition test_circuit :: circuit_model where
  "test_circuit =
     make_circuit
       [comp 0 VoltageSource 250 1 0, comp 1 VoltageSource 4 4 2,
        comp 2 Resistor 50 1 3, comp 3 Resistor 10 3 2,
        comp 4 Resistor 10 4 3, comp 5 Resistor 40 4 0,
        comp 6 CurrentSource (2 / 10) 2 0, comp 7 CurrentSource 5 0 2] 0"

section \<open>Ingest of a netlist (app.py)\<close>

text \<open>\<open>COMPONENT_MAP.get(comp_type)\<close>.\<close>

definition component_map :: "string \<Rightarrow> kind option" where
  "component_map t =
     (if t = ''RESISTOR'' then Some Resistor
      else if t = ''VOLTAGE SOURCE'' then Some VoltageSource
      else if t = ''CURRENT SOURCE'' then Some CurrentSource
      else if t = ''VS'' then Some VoltageSource
      else if t = ''CS'' then Some CurrentSource
      else if t = ''R'' then Some Resistor
      else if t = ''VOLTAGE'' then Some VoltageSource
      else if t = ''CURRENT'' then Some CurrentSource
      else None)"

text \<open>\<open>comp_data["type"].upper().strip()\<close>: only a string has \<open>upper\<close>.\<close>

fun type_tag :: "pyval \<Rightarrow> error + string" where
  "type_tag (PStr t) = Inr (strip (upper t))"
| "type_tag v = Inl AttributeError"

text \<open>
  \<open>float(comp_data["value"])\<close> inside \<open>try\<close>: a \<open>ValueError\<close> or \<open>TypeError\<close> is raised
  again as \<open>ValueError\<close>.
\<close>

definition checked_value :: "(string \<Rightarrow> real option) \<Rightarrow> pyval \<Rightarrow> error + real" where
  "checked_value str_to_float v =
     (case py_float str_to_float v of Inl e \<Rightarrow> Inl ValueError | Inr x \<Rightarrow> Inr x)"

text \<open>
  One round of the loop of \<open>_build_circuit_model\<close>, for the record at index \<open>i\<close> (which
  also stands for the id that the constructor draws). The terminals are converted with
  \<open>int(...)\<close> before the constructor sees them.
\<close>

definition ingest_record ::
  "(string \<Rightarrow> real option) \<Rightarrow> circuit_model \<Rightarrow> nat \<Rightarrow> pyval \<Rightarrow> error + circuit_model" where
  "ingest_record str_to_float model i comp_data =
     (case comp_data of
        PDict d \<Rightarrow>
          (if \<not> list_all (\<lambda>k. map_of d k \<noteq> None) [''type'', ''value'', ''nodeA'', ''nodeB'']
           then Inl KeyError
           else
             and_then (type_tag (the (map_of d ''type''))) (\<lambda>comp_type.
               (case component_map comp_type of
                  None \<Rightarrow> Inl ValueError
                | Some cls \<Rightarrow>
                    and_then (checked_value str_to_float (the (map_of d ''value''))) (\<lambda>v.
                    and_then (py_int (the (map_of d ''nodeA''))) (\<lambda>a.
                    and_then (py_int (the (map_of d ''nodeB''))) (\<lambda>b.
                    and_then (new_component str_to_float cls i (PFloat v) (PInt a) (PInt b))
                      (\<lambda>component. Inr (add_component model component))))))))
      | _ \<Rightarrow> Inl ValueError)"

fun ingest_loop ::
  "(string \<Rightarrow> real option) \<Rightarrow> circuit_model \<Rightarrow> nat \<Rightarrow> pyval list \<Rightarrow> error + circuit_model" where
  "ingest_loop str_to_float model i [] = Inr model"
| "ingest_loop str_to_float model i (comp_data # rest) =
     and_then (ingest_record str_to_float model i comp_data)
       (\<lambda>model'. ingest_loop str_to_float model' (Suc i) rest)"

text \<open>\<open>_build_circuit_model(components_data)\<close>.\<close>

definition build_circuit_model :: "(string \<Rightarrow> real option) \<Rightarrow> pyval \<Rightarrow> error + circuit_model" where
  "build_circuit_model str_to_float components_data =
     (case components_data of
        PList records \<Rightarrow>
          and_then (ingest_loop str_to_float new_model 0 records)
            (\<lambda>model. set_reference_node model (PInt 0))
      | _ \<Rightarrow> Inl ValueError)"

text \<open>A netlist record as the request carries it.\<close>

definition netlist_record :: "string \<Rightarrow> pyval \<Rightarrow> pyval \<Rightarrow> pyval \<Rightarrow> pyval" where
  "netlist_record t v a b =
     PDict [(''type'', PStr t), (''value'', v), (''nodeA'', a), (''nodeB'', b)]"

section \<open>Numerical solver (services/circuit\_solver.py)\<close>

subsection \<open>Arrays\<close>

text \<open>
  A numpy vector is a list of reals and a matrix the list of its rows. An element is
  read or written at natural-number indices; an index out of range raises \<open>IndexError\<close>.
  In this section \<open>+\<close>, \<open>-\<close>, \<open>*\<close> and \<open>/\<close> are those of the reals: the functions
  are the program's with the rounding left out. What depends on the rounding is stated
  of \<open>solve_fp fl\<close> below; \<open>solve_fp\<close> with the identity as rounding is \<open>solve\<close>.
\<close>

type_synonym vector = "real list"
type_synonym matrix = "real list list"

definition zeros :: "nat \<Rightarrow> vector" where
  "zeros n = replicate n 0"

definition zeros2 :: "nat \<Rightarrow> nat \<Rightarrow> matrix" where
  "zeros2 n k = replicate n (replicate k 0)"

definition vec_set :: "vector \<Rightarrow> nat \<Rightarrow> real \<Rightarrow> error + vector" where
  "vec_set Z i v = (if i < length Z then Inr (Z[i := v]) else Inl IndexError)"

definition vec_add :: "vector \<Rightarrow> nat \<Rightarrow> real \<Rightarrow> error + vector" where
  "vec_add Z i v = (if i < length Z then Inr (Z[i := Z ! i + v]) else Inl IndexError)"

definition vec_sub :: "vector \<Rightarrow> nat \<Rightarrow> real \<Rightarrow> error + vector" where
  "vec_sub Z i v = (if i < length Z then Inr (Z[i := Z ! i - v]) else Inl IndexError)"

definition mat_set :: "matrix \<Rightarrow> nat \<Rightarrow> nat \<Rightarrow> real \<Rightarrow> error + matrix" where
  "mat_set G i j v =
     (if i < length G \<and> j < length (G ! i) then Inr (G[i := (G ! i)[j := v]])
      else Inl IndexError)"

definition mat_add :: "matrix \<Rightarrow> nat \<Rightarrow> nat \<Rightarrow> real \<Rightarrow> error + matrix" where
  "mat_add G i j v =
     (if i < length G \<and> j < length (G ! i) then Inr (G[i := (G ! i)[j := G ! i ! j + v]])
      else Inl IndexError)"

definition mat_sub :: "matrix \<Rightarrow> nat \<Rightarrow> nat \<Rightarrow> real \<Rightarrow> error + matrix" where
  "mat_sub G i j v =
     (if i < length G \<and> j < length (G ! i) then Inr (G[i := (G ! i)[j := G ! i ! j - v]])
      else Inl IndexError)"

subsection \<open>\<open>CircuitSolver.__init__\<close>\<close>

record solver =
  model :: circuit_model
  ref_node :: int
  resistors :: "component list"
  voltage_sources :: "component list"
  current_sources :: "component list"
  non_ref_nodes :: "int list"
  num_nodes :: nat
  num_vs :: nat

definition circuit_solver :: "circuit_model \<Rightarrow> solver" where
  "circuit_solver m =
     \<lparr>model = m,
      ref_node = reference_node m,
      resistors = of_class Resistor m,
      voltage_sources = of_class VoltageSource m,
      current_sources = of_class CurrentSource m,
      non_ref_nodes = sort (filter (\<lambda>n. n \<noteq> reference_node m) (nodes m)),
      num_nodes = length (sort (filter (\<lambda>n. n \<noteq> reference_node m) (nodes m))),
      num_vs = length (of_class VoltageSource m)\<rparr>"

text \<open>
  \<open>node_to_index\<close> is the dict \<open>{node: i for i, node in enumerate(non_ref_nodes)}\<close>;
  a node that is not a key raises \<open>KeyError\<close>.
\<close>

fun index_of :: "int list \<Rightarrow> int \<Rightarrow> nat option" where
  "index_of [] n = None"
| "index_of (x # xs) n = (if x = n then Some 0 else map_option Suc (index_of xs n))"

definition node_to_index :: "solver \<Rightarrow> int \<Rightarrow> error + nat" where
  "node_to_index s n =
     (case index_of (non_ref_nodes s) n of None \<Rightarrow> Inl KeyError | Some i \<Rightarrow> Inr i)"

subsection \<open>Assembly of the MNA system\<close>

text \<open>One round of the loop of \<open>_stamp_conductances\<close>.\<close>

definition stamp_resistor :: "solver \<Rightarrow> component \<Rightarrow> matrix \<Rightarrow> error + matrix" where
  "stamp_resistor s resistor G =
     (let n1 = node1 resistor; n2 = node2 resistor in
      if comp_value resistor = 0 then Inl ZeroDivisionError
      else
        (let g = 1 / comp_value resistor in
         if n1 \<noteq> ref_node s \<and> n2 \<noteq> ref_node s then
           and_then (node_to_index s n1) (\<lambda>i.
           and_then (node_to_index s n2) (\<lambda>j.
           and_then (mat_add G i i g) (\<lambda>G1.
           and_then (mat_add G1 j j g) (\<lambda>G2.
           and_then (mat_sub G2 i j g) (\<lambda>G3.
             mat_sub G3 j i g)))))
         else if n1 \<noteq> ref_node s \<and> n2 = ref_node s then
           and_then (node_to_index s n1) (\<lambda>i. mat_add G i i g)
         else if n2 \<noteq> ref_node s \<and> n1 = ref_node s then
           and_then (node_to_index s n2) (\<lambda>j. mat_add G j j g)
         else Inr G))"

fun stamp_conductances :: "solver \<Rightarrow> component list \<Rightarrow> matrix \<Rightarrow> error + matrix" where
  "stamp_conductances s [] G = Inr G"
| "stamp_conductances s (resistor # rest) G =
     and_then (stamp_resistor s resistor G) (stamp_conductances s rest)"

text \<open>One round of the loop of \<open>_stamp_current_sources\<close>.\<close>

definition stamp_current_source :: "solver \<Rightarrow> component \<Rightarrow> vector \<Rightarrow> error + vector" where
  "stamp_current_source s cs Z =
     (let n1 = node1 cs; n2 = node2 cs; current = comp_value cs in
      and_then
        (if n1 \<noteq> ref_node s
         then and_then (node_to_index s n1) (\<lambda>i. vec_sub Z i current)
         else Inr Z)
        (\<lambda>Z1.
           if n2 \<noteq> ref_node s
           then and_then (node_to_index s n2) (\<lambda>j. vec_add Z1 j current)
           else Inr Z1))"

fun stamp_current_sources :: "solver \<Rightarrow> component list \<Rightarrow> vector \<Rightarrow> error + vector" where
  "stamp_current_sources s [] Z = Inr Z"
| "stamp_current_sources s (cs # rest) Z =
     and_then (stamp_current_source s cs Z) (stamp_current_sources s rest)"

text \<open>
  One round of the loop of \<open>_stamp_voltage_sources\<close>, for the source at position
  \<open>vs_idx\<close>. The entries are assigned, not added to.
\<close>

definition stamp_voltage_source ::
  "solver \<Rightarrow> nat \<Rightarrow> component \<Rightarrow> matrix \<times> vector \<Rightarrow> error + matrix \<times> vector" where
  "stamp_voltage_source s vs_idx vs GZ =
     (let G = fst GZ; Z = snd GZ;
          n1 = node1 vs; n2 = node2 vs; voltage = comp_value vs;
          vs_row = num_nodes s + vs_idx;
          vs_col = num_nodes s + vs_idx in
      and_then
        (if n1 \<noteq> ref_node s
         then and_then (node_to_index s n1) (\<lambda>i. mat_set G vs_row i 1)
         else Inr G) (\<lambda>G1.
      and_then
        (if n2 \<noteq> ref_node s
         then and_then (node_to_index s n2) (\<lambda>j. mat_set G1 vs_row j (- 1))
         else Inr G1) (\<lambda>G2.
      and_then (vec_set Z vs_row voltage) (\<lambda>Z1.
      and_then
        (if n1 \<noteq> ref_node s
         then and_then (node_to_index s n1) (\<lambda>i. mat_set G2 i vs_col 1)
         else Inr G2) (\<lambda>G3.
      and_then
        (if n2 \<noteq> ref_node s
         then and_then (node_to_index s n2) (\<lambda>j. mat_set G3 j vs_col (- 1))
         else Inr G3) (\<lambda>G4.
        Inr (G4, Z1)))))))"

fun stamp_voltage_sources ::
  "solver \<Rightarrow> nat \<Rightarrow> component list \<Rightarrow> matrix \<times> vector \<Rightarrow> error + matrix \<times> vector" where
  "stamp_voltage_sources s vs_idx [] GZ = Inr GZ"
| "stamp_voltage_sources s vs_idx (vs # rest) GZ =
     and_then (stamp_voltage_source s vs_idx vs GZ) (stamp_voltage_sources s (Suc vs_idx) rest)"

text \<open>\<open>CircuitSolver._build_mna_system\<close>.\<close>

definition build_mna_system :: "solver \<Rightarrow> error + matrix \<times> vector" where
  "build_mna_system s =
     (let size = num_nodes s + num_vs s;
          G = zeros2 size size;
          Z = zeros size in
      and_then (stamp_conductances s (resistors s) G) (\<lambda>G1.
      and_then (stamp_current_sources s (current_sources s) Z) (\<lambda>Z1.
        stamp_voltage_sources s 0 (voltage_sources s) (G1, Z1))))"

subsection \<open>\<open>numpy.linalg.solve\<close>\<close>

text \<open>
  \<open>np.linalg.solve\<close> is a library function (LAPACK \<open>gesv\<close>): LU factorisation with
  partial pivoting, then substitution; it raises \<open>LinAlgError\<close> when a pivot is exactly
  zero. It is modelled as Gaussian elimination with partial pivoting
  on the equations \<open>(row of G, entry of Z)\<close>: in each column the first row whose leading
  coefficient is largest in absolute value is swapped to the top and eliminated from the
  others; a zero pivot gives \<open>None\<close>. Here the elimination is exact, so that it fails
  on every singular matrix; \<open>gauss_fp\<close> below is the same elimination in double
  precision, which fails only on a pivot that is exactly zero after rounding.
\<close>

type_synonym equation = "real list \<times> real"

definition dot :: "real list \<Rightarrow> real list \<Rightarrow> real" where
  "dot cs xs = sum_list (map2 (*) cs xs)"

fun pivot_from :: "nat \<Rightarrow> real \<Rightarrow> nat \<Rightarrow> real list \<Rightarrow> nat" where
  "pivot_from best bv i [] = best"
| "pivot_from best bv i (h # hs) =
     (if \<bar>h\<bar> > bv then pivot_from i \<bar>h\<bar> (Suc i) hs else pivot_from best bv (Suc i) hs)"

definition pivot_row :: "real list \<Rightarrow> nat" where
  "pivot_row hs = (case hs of [] \<Rightarrow> 0 | h # rest \<Rightarrow> pivot_from 0 \<bar>h\<bar> 1 rest)"

definition eliminate :: "equation \<Rightarrow> equation \<Rightarrow> equation" where
  "eliminate piv row =
     (let l = hd (fst row) / hd (fst piv)
      in (map2 (\<lambda>c p. c - l * p) (tl (fst row)) (tl (fst piv)), snd row - l * snd piv))"

fun gauss :: "nat \<Rightarrow> equation list \<Rightarrow> vector option" where
  "gauss 0 rows = Some []"
| "gauss (Suc n) rows =
     (let p = pivot_row (map (\<lambda>r. hd (fst r)) rows);
          piv = rows ! p
      in if hd (fst piv) = 0 then None
         else (case gauss n (map (eliminate piv) (tl (rows[p := hd rows]))) of
                 None \<Rightarrow> None
               | Some xs \<Rightarrow> Some ((snd piv - dot (tl (fst piv)) xs) / hd (fst piv) # xs)))"

definition linalg_solve :: "matrix \<Rightarrow> vector \<Rightarrow> error + vector" where
  "linalg_solve G Z =
     (if \<not> list_all (\<lambda>row. length row = length G) G then Inl LinAlgError
      else if length Z \<noteq> length G then Inl ValueError
      else (case gauss (length G) (zip G Z) of None \<Rightarrow> Inl LinAlgError | Some X \<Rightarrow> Inr X))"

subsection \<open>Packaging of the solution\<close>

text \<open>
  The result of \<open>_calculate_component_result\<close> (the power description, a formatted
  text, is left out). In the reals there is no NaN to replace. The sum of the powers and
  the flag \<open>power_balance\<close> are exact here and rounded in \<open>package_solution_fp\<close>.
\<close>

record component_result =
  res_id :: nat
  res_type :: string
  res_value :: real
  res_node1 :: int
  res_node2 :: int
  res_voltage :: real
  res_current :: real
  res_power :: real

definition type_name :: "kind \<Rightarrow> string" where
  "type_name k =
     (case k of Resistor \<Rightarrow> ''Resistor'' | VoltageSource \<Rightarrow> ''Voltage Source''
      | CurrentSource \<Rightarrow> ''Current Source'')"

text \<open>\<open>voltages.get(node, 0.0)\<close> on the dict of node voltages.\<close>

definition voltage_at :: "(int \<times> real) list \<Rightarrow> int \<Rightarrow> real" where
  "voltage_at voltages n = (case map_of voltages n of None \<Rightarrow> 0 | Some v \<Rightarrow> v)"

text \<open>The loop that looks a voltage source up by its id; \<open>None\<close> when no id matches.\<close>

fun find_vs :: "component list \<Rightarrow> nat \<Rightarrow> nat \<Rightarrow> nat option" where
  "find_vs [] vs_idx i = None"
| "find_vs (vs # rest) vs_idx i =
     (if comp_id vs = i then Some vs_idx else find_vs rest (Suc vs_idx) i)"

definition calculate_component_result ::
  "solver \<Rightarrow> component \<Rightarrow> (int \<times> real) list \<Rightarrow> vector \<Rightarrow> error + component_result" where
  "calculate_component_result s c voltages vs_currents =
     (let v1 = voltage_at voltages (node1 c);
          v2 = voltage_at voltages (node2 c);
          voltage = v1 - v2
      in and_then
           (case comp_class c of
              Resistor \<Rightarrow>
                (if comp_value c = 0 then Inl ZeroDivisionError
                 else Inr (voltage / comp_value c))
            | VoltageSource \<Rightarrow>
                (case find_vs (voltage_sources s) 0 (comp_id c) of
                   None \<Rightarrow> Inr 0
                 | Some vs_idx \<Rightarrow>
                     (if vs_idx < length vs_currents then Inr (vs_currents ! vs_idx)
                      else Inl IndexError))
            | CurrentSource \<Rightarrow> Inr (comp_value c))
           (\<lambda>current.
              Inr \<lparr>res_id = comp_id c, res_type = type_name (comp_class c),
                   res_value = comp_value c, res_node1 = node1 c, res_node2 = node2 c,
                   res_voltage = voltage, res_current = current,
                   res_power = voltage * current\<rparr>))"

fun component_results ::
  "solver \<Rightarrow> component list \<Rightarrow> (int \<times> real) list \<Rightarrow> vector \<Rightarrow> error + component_result list" where
  "component_results s [] voltages vs_currents = Inr []"
| "component_results s (c # rest) voltages vs_currents =
     and_then (calculate_component_result s c voltages vs_currents) (\<lambda>r.
     and_then (component_results s rest voltages vs_currents) (\<lambda>rs. Inr (r # rs)))"

text \<open>
  The dict of voltages: the reference node at 0, then \<open>index_to_node[i]\<close> for every
  solved voltage; an index that is not a key raises \<open>KeyError\<close>.
\<close>

fun fill_voltages ::
  "solver \<Rightarrow> nat \<Rightarrow> vector \<Rightarrow> (int \<times> real) list \<Rightarrow> error + (int \<times> real) list" where
  "fill_voltages s i [] voltages = Inr voltages"
| "fill_voltages s i (voltage # rest) voltages =
     (if i < length (non_ref_nodes s)
      then fill_voltages s (Suc i) rest (AList.update (non_ref_nodes s ! i) voltage voltages)
      else Inl KeyError)"

text \<open>
  \<open>_build_matrix_info\<close>: the residual \<open>G X - Z\<close> and its largest absolute value; when
  that computation raises (an empty system, shapes that do not fit) the lists are empty.
\<close>

record matrix_info =
  conductance_matrix :: matrix
  current_vector :: vector
  voltage_solution :: vector
  residual :: vector
  max_error :: real

definition build_matrix_info :: "matrix \<Rightarrow> vector \<Rightarrow> vector \<Rightarrow> matrix_info" where
  "build_matrix_info G Z X =
     (if G = [] \<or> \<not> list_all (\<lambda>row. length row = length X) G \<or> length Z \<noteq> length G
      then \<lparr>conductance_matrix = [], current_vector = [], voltage_solution = [],
            residual = [], max_error = 0\<rparr>
      else
        (let r = map2 (-) (map (\<lambda>row. dot row X) G) Z
         in \<lparr>conductance_matrix = G, current_vector = Z, voltage_solution = X,
              residual = r, max_error = foldr max (map abs r) 0\<rparr>))"

record solution =
  voltages :: "(int \<times> real) list"
  results :: "component_result list"
  total_power :: real
  matrix_solution :: matrix_info
  total_components :: nat
  solved_nodes :: nat
  power_balance :: bool

text \<open>\<open>CircuitSolver._package_solution\<close>.\<close>

definition package_solution ::
  "solver \<Rightarrow> vector \<Rightarrow> vector \<Rightarrow> matrix \<Rightarrow> vector \<Rightarrow> error + solution" where
  "package_solution s node_voltages vs_currents G Z =
     and_then (fill_voltages s 0 node_voltages [(ref_node s, 0)]) (\<lambda>vm.
     and_then (component_results s (components (model s)) vm vs_currents) (\<lambda>rs.
       Inr \<lparr>voltages = vm,
            results = rs,
            total_power = sum_list (map res_power rs),
            matrix_solution = build_matrix_info G Z (node_voltages @ vs_currents),
            total_components = length (components (model s)),
            solved_nodes = length vm,
            power_balance = (\<bar>sum_list (map res_power rs)\<bar> < 1 / 10 ^ 9)\<rparr>))"

subsection \<open>\<open>CircuitSolver.solve\<close>\<close>

datatype solve_result =
    Solved solution
  | Failed string string

text \<open>\<open>_create_error_response(message)\<close>: status error, the message, the suggestion.\<close>

definition create_error_response :: "string \<Rightarrow> solve_result" where
  "create_error_response message =
     Failed message ''Check circuit connectivity and component values''"

text \<open>The two \<open>except\<close> clauses of \<open>solve\<close>.\<close>

definition on_exception :: "error \<Rightarrow> solve_result" where
  "on_exception e =
     (if e = LinAlgError
      then create_error_response (''Singular matrix: Circuit may be unsolvable. '' @ error_str e)
      else create_error_response (''Solver error: '' @ error_str e))"

definition solve :: "solver \<Rightarrow> solve_result" where
  "solve s =
     (case build_mna_system s of
        Inl e \<Rightarrow> on_exception e
      | Inr GZ \<Rightarrow>
          (case linalg_solve (fst GZ) (snd GZ) of
             Inl e \<Rightarrow> on_exception e
           | Inr X \<Rightarrow>
               (case package_solution s (take (num_nodes s) X) (drop (num_nodes s) X)
                       (fst GZ) (snd GZ) of
                  Inl e \<Rightarrow> on_exception e
                | Inr sol \<Rightarrow> Solved sol)))"

section \<open>Equation generator (services/equation\_builder.py)\<close>

subsection \<open>Formatting\<close>

text \<open>
  \<open>str(n)\<close> for an integer, and the format \<open>:.1f\<close>: one digit after the point, the
  nearest tenth with ties to the even digit. (On reals: the binary rounding of a float
  and the negative zero are outside the model.)
\<close>

definition digit_char :: "nat \<Rightarrow> char" where
  "digit_char d = ''0123456789'' ! d"

fun show_nat :: "nat \<Rightarrow> string" where
  "show_nat n = (if n < 10 then [digit_char n] else show_nat (n div 10) @ [digit_char (n mod 10)])"

declare show_nat.simps [simp del]

definition show_int :: "int \<Rightarrow> string" where
  "show_int i = (if i < 0 then ''-'' @ show_nat (nat (- i)) else show_nat (nat i))"

definition round_half_even :: "real \<Rightarrow> nat" where
  "round_half_even y =
     (let f = \<lfloor>y\<rfloor>; d = y - of_int f
      in nat (if d < 1 / 2 then f else if d > 1 / 2 then f + 1 else if even f then f else f + 1))"

definition format_1f :: "real \<Rightarrow> string" where
  "format_1f x =
     (let q = round_half_even (\<bar>x\<bar> * 10)
      in (if x < 0 then ''-'' else []) @ show_nat (q div 10) @ ''.'' @ show_nat (q mod 10))"

text \<open>\<open>sep.join(xs)\<close> and \<open>s.replace(old, new)\<close> (\<open>old\<close> not empty; \<open>k\<close> counts the
  characters of a replaced occurrence still to pass over).\<close>

fun join :: "string \<Rightarrow> string list \<Rightarrow> string" where
  "join sep [] = []"
| "join sep [x] = x"
| "join sep (x # y # ys) = x @ sep @ join sep (y # ys)"

fun replace_from :: "nat \<Rightarrow> string \<Rightarrow> string \<Rightarrow> string \<Rightarrow> string" where
  "replace_from k old new [] = []"
| "replace_from k old new (c # cs) =
     (if k > 0 then replace_from (k - 1) old new cs
      else if prefix old (c # cs) then new @ replace_from (length old - 1) old new cs
      else c # replace_from 0 old new cs)"

definition replace :: "string \<Rightarrow> string \<Rightarrow> string \<Rightarrow> string" where
  "replace s old new = replace_from 0 old new s"

subsection \<open>Topology queries of the circuit model\<close>

text \<open>
  \<open>CircuitModel.get_components_connected_to_node\<close>: the neighbours of the node in the
  order in which they became adjacent, and for each the edges to it in insertion order.
\<close>

definition edge_touches :: "int \<Rightarrow> (int \<times> int \<times> nat \<times> component) \<Rightarrow> bool" where
  "edge_touches n e = (fst e = n \<or> fst (snd e) = n)"

definition other_end :: "int \<Rightarrow> (int \<times> int \<times> nat \<times> component) \<Rightarrow> int" where
  "other_end n e = (if fst e = n then fst (snd e) else fst e)"

definition neighbours :: "circuit_model \<Rightarrow> int \<Rightarrow> int list" where
  "neighbours m n = rev (remdups (rev (map (other_end n) (filter (edge_touches n) (graph_edges m)))))"

definition get_components_connected_to_node :: "circuit_model \<Rightarrow> int \<Rightarrow> (component \<times> int) list" where
  "get_components_connected_to_node m n =
     (if n \<notin> set (graph_nodes m) then []
      else concat (map (\<lambda>neighbor.
             map (\<lambda>e. (snd (snd (snd e)), neighbor))
               (filter (\<lambda>e. other_end n e = neighbor) (filter (edge_touches n) (graph_edges m))))
           (neighbours m n)))"

subsection \<open>\<open>EquationBuilder\<close>\<close>

text \<open>
  The builder holds the model and the list of supernodes it was given. A supernode is a
  Python set; its list here stands for the order in which the set is iterated, which is
  the interpreter's own.
\<close>

record equation_builder =
  eb_model :: circuit_model
  eb_supernodes :: "int list list"
  eb_voltage_sources :: "component list"
  eb_supernode_nodes :: "int list"

definition new_equation_builder :: "circuit_model \<Rightarrow> int list list \<Rightarrow> equation_builder" where
  "new_equation_builder m sns =
     \<lparr>eb_model = m, eb_supernodes = sns, eb_voltage_sources = of_class VoltageSource m,
      eb_supernode_nodes = remdups (concat sns)\<rparr>"

text \<open>\<open>_build_resistor_term\<close> and \<open>_build_current_source_term\<close>.\<close>

definition build_resistor_term :: "equation_builder \<Rightarrow> component \<Rightarrow> int \<Rightarrow> int \<Rightarrow> string" where
  "build_resistor_term eb resistor node neighbor =
     (if neighbor = reference_node (eb_model eb)
      then [CHR 0x5C] @ ''frac{V_{'' @ show_int node @ ''}}{'' @ format_1f (comp_value resistor) @ ''}''
      else [CHR 0x5C] @ ''frac{V_{'' @ show_int node @ ''} - V_{'' @ show_int neighbor @ ''}}{''
           @ format_1f (comp_value resistor) @ ''}'')"

definition build_current_source_term :: "component \<Rightarrow> int \<Rightarrow> string" where
  "build_current_source_term current_source node =
     (if node1 current_source = node then format_1f (comp_value current_source)
      else if node2 current_source = node then ''(-'' @ format_1f (comp_value current_source) @ '')''
      else [])"

text \<open>The terms that one node contributes to a regular node equation.\<close>

definition node_terms :: "equation_builder \<Rightarrow> int \<Rightarrow> string list" where
  "node_terms eb node =
     filter (\<lambda>t. t \<noteq> [])
       (concat (map (\<lambda>cn.
          (case comp_class (fst cn) of
             VoltageSource \<Rightarrow> []
           | Resistor \<Rightarrow> [build_resistor_term eb (fst cn) node (snd cn)]
           | CurrentSource \<Rightarrow> [build_current_source_term (fst cn) node]))
        (get_components_connected_to_node (eb_model eb) node)))"

definition kcl_text :: "string list \<Rightarrow> string" where
  "kcl_text equation_terms = replace (join '' + '' equation_terms) ''+ -'' ''- '' @ '' = 0''"

text \<open>\<open>_build_regular_node_equations\<close>.\<close>

definition build_regular_node_equations :: "equation_builder \<Rightarrow> string list" where
  "build_regular_node_equations eb =
     concat (map (\<lambda>node.
        if node \<in> set (eb_supernode_nodes eb) then []
        else (let equation_terms = node_terms eb node
              in if equation_terms \<noteq> []
                 then [''Node '' @ show_int node @ '': $'' @ kcl_text equation_terms @ ''$'']
                 else []))
      (get_non_reference_nodes (eb_model eb)))"

text \<open>The terms that one node of a supernode contributes to the supernode's equation.\<close>

definition boundary_terms :: "equation_builder \<Rightarrow> int list \<Rightarrow> int \<Rightarrow> string list" where
  "boundary_terms eb supernode node =
     concat (map (\<lambda>cn.
        (case comp_class (fst cn) of
           VoltageSource \<Rightarrow> []
         | Resistor \<Rightarrow>
             (if snd cn \<notin> set supernode
              then filter (\<lambda>t. t \<noteq> []) [build_resistor_term eb (fst cn) node (snd cn)]
              else [])
         | CurrentSource \<Rightarrow>
             (if snd cn \<notin> set supernode
              then (if node1 (fst cn) = node then [format_1f (comp_value (fst cn))]
                    else if node2 (fst cn) = node
                    then [''(-'' @ format_1f (comp_value (fst cn)) @ '')'']
                    else [])
              else [])))
      (get_components_connected_to_node (eb_model eb) node))"

text \<open>\<open>_build_ungrounded_supernode_equations\<close>.\<close>

definition build_ungrounded_supernode_equations :: "equation_builder \<Rightarrow> string list" where
  "build_ungrounded_supernode_equations eb =
     concat (map (\<lambda>supernode.
        if reference_node (eb_model eb) \<in> set supernode then []
        else (let equation_terms = concat (map (boundary_terms eb supernode) supernode)
              in if equation_terms \<noteq> []
                 then [''Supernode {'' @ join '','' (map show_int (sort supernode)) @ ''}: $''
                       @ kcl_text equation_terms @ ''$'']
                 else []))
      (eb_supernodes eb))"

text \<open>\<open>_build_voltage_source_constraints\<close>.\<close>

definition build_voltage_source_constraints :: "equation_builder \<Rightarrow> string list" where
  "build_voltage_source_constraints eb =
     map (\<lambda>vs.
        if node1 vs = reference_node (eb_model eb)
        then ''V_{'' @ show_int (node2 vs) @ ''} = '' @ format_1f (- comp_value vs)
        else if node2 vs = reference_node (eb_model eb)
        then ''V_{'' @ show_int (node1 vs) @ ''} = '' @ format_1f (comp_value vs)
        else ''V_{'' @ show_int (node1 vs) @ ''} - V_{'' @ show_int (node2 vs) @ ''} = ''
             @ format_1f (comp_value vs))
      (eb_voltage_sources eb)"

text \<open>\<open>EquationBuilder.build_equations\<close>.\<close>

definition build_equations :: "equation_builder \<Rightarrow> string list" where
  "build_equations eb =
     build_regular_node_equations eb
     @ build_ungrounded_supernode_equations eb
     @ build_voltage_source_constraints eb"

section \<open>Matrices from the equation strings (services/matrix\_builder.py)\<close>

record matrix_builder =
  mb_model :: circuit_model
  mb_supernodes :: "int list list"
  mb_non_ref_nodes :: "int list"
  mb_voltage_sources :: "component list"
  mb_num_nodes :: nat
  mb_num_vs :: nat
  mb_matrix_size :: nat

definition new_matrix_builder :: "circuit_model \<Rightarrow> int list list \<Rightarrow> matrix_builder" where
  "new_matrix_builder m sns =
     \<lparr>mb_model = m, mb_supernodes = sns,
      mb_non_ref_nodes = get_non_reference_nodes m,
      mb_voltage_sources = of_class VoltageSource m,
      mb_num_nodes = length (get_non_reference_nodes m),
      mb_num_vs = length (of_class VoltageSource m),
      mb_matrix_size = length (get_non_reference_nodes m) + length (of_class VoltageSource m)\<rparr>"

text \<open>\<open>MatrixBuilder._count_kcl_equations(self, equations)\<close>.\<close>

definition count_kcl_equations :: "string list \<Rightarrow> nat" where
  "count_kcl_equations equations =
     length (filter (\<lambda>eq. contains eq ''Node'' \<or> contains eq ''Supernode'') equations)"

text \<open>
  A call of the method with the positional arguments \<open>args\<close> (after \<open>self\<close>): the method
  has one required parameter, so any other number of arguments raises \<open>TypeError\<close>.
\<close>

definition call_count_kcl_equations :: "string list list \<Rightarrow> error + nat" where
  "call_count_kcl_equations args =
     (case args of [equations] \<Rightarrow> Inr (count_kcl_equations equations) | _ \<Rightarrow> Inl TypeError)"

text \<open>
  \<open>_parse_voltage_terms\<close>: all matches of an optional sign, whitespace and \<open>V_{digits}\<close>,
  scanned from the left; \<open>k\<close> counts the characters of a match still to pass over.
\<close>

definition match_variable :: "string \<Rightarrow> (string \<times> nat) option" where
  "match_variable s =
     (let spaces = takeWhile is_space s; rest = dropWhile is_space s
      in if prefix ''V_{'' rest
         then (let ds = takeWhile is_digit (drop 3 rest); after = dropWhile is_digit (drop 3 rest)
               in if ds \<noteq> [] \<and> prefix ''}'' after
                  then Some (ds, length spaces + 3 + length ds + 1)
                  else None)
         else None)"

definition match_voltage_term :: "string \<Rightarrow> (string \<times> string \<times> nat) option" where
  "match_voltage_term s =
     (case s of
        [] \<Rightarrow> None
      | c # cs \<Rightarrow>
          (if c = CHR ''+'' \<or> c = CHR ''-'' then
             (case match_variable cs of
                Some (ds, k) \<Rightarrow> Some ([c], ds, Suc k)
              | None \<Rightarrow> map_option (\<lambda>dk. ([], fst dk, snd dk)) (match_variable (c # cs)))
           else map_option (\<lambda>dk. ([], fst dk, snd dk)) (match_variable (c # cs))))"

fun find_voltage_terms :: "nat \<Rightarrow> string \<Rightarrow> (string \<times> string) list" where
  "find_voltage_terms k [] = []"
| "find_voltage_terms k (c # cs) =
     (if k > 0 then find_voltage_terms (k - 1) cs
      else (case match_voltage_term (c # cs) of
              Some (sg, ds, len) \<Rightarrow> (sg, ds) # find_voltage_terms (len - 1) cs
            | None \<Rightarrow> find_voltage_terms 0 cs))"

definition parse_voltage_terms :: "string \<Rightarrow> (int \<times> real) list" where
  "parse_voltage_terms expression =
     map (\<lambda>sn. (digits_value (snd sn), if fst sn = ''-'' then - 1 else 1))
       (find_voltage_terms 0 expression)"

text \<open>A numpy index given as a Python integer: a negative one counts from the end.\<close>

definition np_index :: "nat \<Rightarrow> int \<Rightarrow> error + nat" where
  "np_index n i =
     (if 0 \<le> i \<and> i < int n then Inr (nat i)
      else if - int n \<le> i \<and> i < 0 then Inr (nat (int n + i))
      else Inl IndexError)"

text \<open>The loop over the parsed terms in \<open>_process_constraint_equation\<close>.\<close>

fun set_coefficients ::
  "matrix_builder \<Rightarrow> int \<Rightarrow> (int \<times> real) list \<Rightarrow> matrix \<Rightarrow> error + matrix" where
  "set_coefficients mb row [] G = Inr G"
| "set_coefficients mb row (nc # rest) G =
     (case index_of (mb_non_ref_nodes mb) (fst nc) of
        None \<Rightarrow> set_coefficients mb row rest G
      | Some col \<Rightarrow>
          and_then (np_index (length G) row) (\<lambda>r.
          and_then (mat_set G r col (snd nc)) (set_coefficients mb row rest)))"

text \<open>
  \<open>MatrixBuilder._process_constraint_equation\<close>. Its first statement calls
  \<open>self._count_kcl_equations()\<close> with no argument.
\<close>

definition process_constraint_equation ::
  "(string \<Rightarrow> real option) \<Rightarrow> matrix_builder \<Rightarrow> string \<Rightarrow> matrix \<times> vector \<Rightarrow> nat
     \<Rightarrow> error + matrix \<times> vector" where
  "process_constraint_equation str_to_float mb equation GZ eq_index =
     and_then (call_count_kcl_equations []) (\<lambda>kcl.
       (let row = int (mb_num_nodes mb) + int eq_index - int kcl in
        if contains equation ''='' then
          (let left = takeWhile (\<lambda>c. c \<noteq> CHR ''='') equation;
               right = drop 1 (dropWhile (\<lambda>c. c \<noteq> CHR ''='') equation)
           in (case str_to_float (strip right) of
                 None \<Rightarrow> Inl ValueError
               | Some right_val \<Rightarrow>
                   and_then (set_coefficients mb row (parse_voltage_terms left) (fst GZ)) (\<lambda>G.
                   and_then (np_index (length (snd GZ)) row) (\<lambda>r.
                   and_then (vec_set (snd GZ) r right_val) (\<lambda>Z. Inr (G, Z))))))
        else Inr GZ))"

text \<open>
  The loop of \<open>build_matrices_from_equations\<close>. The two methods that parse a KCL
  equation, \<open>_process_node_equation\<close> and \<open>_process_supernode_equation\<close>, are the
  parameters \<open>node_eq\<close> and \<open>supernode_eq\<close>: what is proved below holds whatever they do.
\<close>

fun process_equations ::
  "(matrix_builder \<Rightarrow> string \<Rightarrow> matrix \<times> vector \<Rightarrow> nat \<Rightarrow> error + matrix \<times> vector)
   \<Rightarrow> (matrix_builder \<Rightarrow> string \<Rightarrow> matrix \<times> vector \<Rightarrow> nat \<Rightarrow> error + matrix \<times> vector)
   \<Rightarrow> (string \<Rightarrow> real option) \<Rightarrow> matrix_builder \<Rightarrow> nat \<Rightarrow> string list
   \<Rightarrow> matrix \<times> vector \<Rightarrow> error + matrix \<times> vector" where
  "process_equations node_eq supernode_eq str_to_float mb i [] GZ = Inr GZ"
| "process_equations node_eq supernode_eq str_to_float mb i (equation # rest) GZ =
     and_then
       (if contains equation ''Node'' then node_eq mb equation GZ i
        else if contains equation ''Supernode'' then supernode_eq mb equation GZ i
        else if contains equation ''V_''
        then process_constraint_equation str_to_float mb equation GZ i
        else Inr GZ)
       (process_equations node_eq supernode_eq str_to_float mb (Suc i) rest)"

text \<open>\<open>MatrixBuilder.build_matrices_from_equations\<close>.\<close>

definition build_matrices_from_equations ::
  "(matrix_builder \<Rightarrow> string \<Rightarrow> matrix \<times> vector \<Rightarrow> nat \<Rightarrow> error + matrix \<times> vector)
   \<Rightarrow> (matrix_builder \<Rightarrow> string \<Rightarrow> matrix \<times> vector \<Rightarrow> nat \<Rightarrow> error + matrix \<times> vector)
   \<Rightarrow> (string \<Rightarrow> real option) \<Rightarrow> matrix_builder \<Rightarrow> string list
   \<Rightarrow> error + matrix \<times> vector" where
  "build_matrices_from_equations node_eq supernode_eq str_to_float mb equations =
     process_equations node_eq supernode_eq str_to_float mb 0 equations
       (zeros2 (mb_matrix_size mb) (mb_matrix_size mb), zeros (mb_matrix_size mb))"

text \<open>
  The secondary path on a circuit: the equations of the \<open>EquationBuilder\<close> for the
  analyzer's supernodes, handed to the \<open>MatrixBuilder\<close>.
\<close>

definition matrices_from_rendered_equations ::
  "(matrix_builder \<Rightarrow> string \<Rightarrow> matrix \<times> vector \<Rightarrow> nat \<Rightarrow> error + matrix \<times> vector)
   \<Rightarrow> (matrix_builder \<Rightarrow> string \<Rightarrow> matrix \<times> vector \<Rightarrow> nat \<Rightarrow> error + matrix \<times> vector)
   \<Rightarrow> (string \<Rightarrow> real option) \<Rightarrow> circuit_model \<Rightarrow> error + matrix \<times> vector" where
  "matrices_from_rendered_equations node_eq supernode_eq str_to_float m =
     build_matrices_from_equations node_eq supernode_eq str_to_float
       (new_matrix_builder m (find_supernodes m))
       (build_equations (new_equation_builder m (find_supernodes m)))"

section \<open>The stamps of the specification\<close>

text \<open>
  The MNA system as the specification words it, entry by entry. \<open>N\<close> is the number of
  non-reference nodes, sorted ascending, and the index of a node is its place among them
  (a terminal at the reference node has no index and contributes nothing); \<open>M\<close> is the
  number of voltage sources, in insertion order. The entry \<open>(a, b)\<close> of \<open>G\<close> is the sum of
  what every stamp adds there, starting from zero.
\<close>

definition spec_index :: "circuit_model \<Rightarrow> int \<Rightarrow> nat option" where
  "spec_index m n = index_of (get_non_reference_nodes m) n"

definition spec_N :: "circuit_model \<Rightarrow> nat" where
  "spec_N m = length (get_non_reference_nodes m)"

definition spec_M :: "circuit_model \<Rightarrow> nat" where
  "spec_M m = length (of_class VoltageSource m)"

text \<open>\<open>entry i j v a b\<close>: what \<open>G[i,j] += v\<close> adds at \<open>(a, b)\<close>.\<close>

definition entry :: "nat \<Rightarrow> nat \<Rightarrow> real \<Rightarrow> nat \<Rightarrow> nat \<Rightarrow> real" where
  "entry i j v a b = (if a = i \<and> b = j then v else 0)"

definition resistor_stamp :: "circuit_model \<Rightarrow> component \<Rightarrow> nat \<Rightarrow> nat \<Rightarrow> real" where
  "resistor_stamp m R a b =
     (case (spec_index m (node1 R), spec_index m (node2 R)) of
        (Some i, Some j) \<Rightarrow>
          entry i i (1 / comp_value R) a b + entry j j (1 / comp_value R) a b
          - entry i j (1 / comp_value R) a b - entry j i (1 / comp_value R) a b
      | (Some i, None) \<Rightarrow> entry i i (1 / comp_value R) a b
      | (None, Some j) \<Rightarrow> entry j j (1 / comp_value R) a b
      | (None, None) \<Rightarrow> 0)"

definition current_source_stamp :: "circuit_model \<Rightarrow> component \<Rightarrow> nat \<Rightarrow> real" where
  "current_source_stamp m C a =
     (case spec_index m (node1 C) of Some i \<Rightarrow> (if a = i then - comp_value C else 0) | None \<Rightarrow> 0)
     + (case spec_index m (node2 C) of Some j \<Rightarrow> (if a = j then comp_value C else 0) | None \<Rightarrow> 0)"

definition voltage_source_stamp ::
  "circuit_model \<Rightarrow> nat \<Rightarrow> component \<Rightarrow> nat \<Rightarrow> nat \<Rightarrow> real" where
  "voltage_source_stamp m k V a b =
     (case spec_index m (node1 V) of
        Some i \<Rightarrow> entry (spec_N m + k) i 1 a b + entry i (spec_N m + k) 1 a b
      | None \<Rightarrow> 0)
     + (case spec_index m (node2 V) of
          Some j \<Rightarrow> entry (spec_N m + k) j (- 1) a b + entry j (spec_N m + k) (- 1) a b
        | None \<Rightarrow> 0)"

definition spec_G :: "circuit_model \<Rightarrow> nat \<Rightarrow> nat \<Rightarrow> real" where
  "spec_G m a b =
     sum_list (map (\<lambda>R. resistor_stamp m R a b) (of_class Resistor m))
     + sum_list (map (\<lambda>kV. voltage_source_stamp m (fst kV) (snd kV) a b)
                  (enumerate 0 (of_class VoltageSource m)))"

definition spec_Z :: "circuit_model \<Rightarrow> nat \<Rightarrow> real" where
  "spec_Z m a =
     sum_list (map (\<lambda>C. current_source_stamp m C a) (of_class CurrentSource m))
     + sum_list (map (\<lambda>kV. if a = spec_N m + fst kV then comp_value (snd kV) else 0)
                  (enumerate 0 (of_class VoltageSource m)))"

definition spec_matrix :: "circuit_model \<Rightarrow> matrix" where
  "spec_matrix m =
     map (\<lambda>a. map (\<lambda>b. spec_G m a b) [0..<spec_N m + spec_M m]) [0..<spec_N m + spec_M m]"

definition spec_vector :: "circuit_model \<Rightarrow> vector" where
  "spec_vector m = map (\<lambda>a. spec_Z m a) [0..<spec_N m + spec_M m]"

section \<open>Statements about a linear system\<close>

text \<open>
  A matrix is singular when some vector other than zero is sent to zero by every row.
  A list of equations is well formed for \<open>n\<close> unknowns when there are \<open>n\<close> of them
  with \<open>n\<close> coefficients each; a matrix has shape \<open>n\<close> when it is \<open>n\<close> by \<open>n\<close>.
\<close>

definition singular :: "matrix \<Rightarrow> bool" where
  "singular G =
     (\<exists>x. length x = length G \<and> x \<noteq> replicate (length G) 0
          \<and> list_all (\<lambda>row. dot row x = 0) G)"

definition well_formed :: "nat \<Rightarrow> equation list \<Rightarrow> bool" where
  "well_formed n rows = (length rows = n \<and> (\<forall>r \<in> set rows. length (fst r) = n))"

definition shape :: "nat \<Rightarrow> matrix \<Rightarrow> bool" where
  "shape n G = (length G = n \<and> (\<forall>row \<in> set G. length row = n))"

section \<open>Invariants of a built circuit\<close>

text \<open>
  What holds of every circuit that \<open>add_component\<close> and \<open>set_reference_node\<close> build
  from the new model: the node set has no duplicates and holds the terminals of every
  component, and no two components share an id. The classes of the voltage-source graph are disjoint and none is empty.
\<close>

definition terminals_in_nodes :: "circuit_model \<Rightarrow> bool" where
  "terminals_in_nodes m =
     (\<forall>c \<in> set (components m). node1 c \<in> set (nodes m) \<and> node2 c \<in> set (nodes m))"

definition model_ok :: "circuit_model \<Rightarrow> bool" where
  "model_ok m =
     (distinct (nodes m) \<and> terminals_in_nodes m \<and> distinct (map comp_id (components m)))"


definition partition_ok :: "int list list \<Rightarrow> bool" where
  "partition_ok cls = (distinct (concat cls) \<and> [] \<notin> set cls)"

text \<open>
  A matrix of shape \<open>n\<close> with the entries \<open>f\<close>, a vector of length \<open>n\<close> with the entries
  \<open>g\<close>; a terminal that is either the reference node, with no index, or a non-reference
  node with an index below \<open>N\<close>.
\<close>

definition entries :: "nat \<Rightarrow> matrix \<Rightarrow> (nat \<Rightarrow> nat \<Rightarrow> real) \<Rightarrow> bool" where
  "entries n G f = (shape n G \<and> (\<forall>a<n. \<forall>b<n. G ! a ! b = f a b))"

definition ventries :: "nat \<Rightarrow> vector \<Rightarrow> (nat \<Rightarrow> real) \<Rightarrow> bool" where
  "ventries n Z g = (length Z = n \<and> (\<forall>a<n. Z ! a = g a))"

definition terminal_ok :: "circuit_model \<Rightarrow> int \<Rightarrow> bool" where
  "terminal_ok m t =
     ((t = reference_node m \<and> spec_index m t = None)
      \<or> (t \<noteq> reference_node m \<and> (\<exists>i<spec_N m. spec_index m t = Some i)))"

text \<open>
  The voltage of a node and the power of a component, read off a solution vector \<open>x\<close>
  of the system: the reference node is at 0, a resistor carries \<open>v / R\<close>, a current
  source its value, and voltage source \<open>k\<close> the unknown \<open>x (N + k)\<close>.
\<close>

definition node_voltage :: "circuit_model \<Rightarrow> (nat \<Rightarrow> real) \<Rightarrow> int \<Rightarrow> real" where
  "node_voltage m x t = (case spec_index m t of Some i \<Rightarrow> x i | None \<Rightarrow> 0)"

definition component_power :: "circuit_model \<Rightarrow> (nat \<Rightarrow> real) \<Rightarrow> component \<Rightarrow> real" where
  "component_power m x c =
     (node_voltage m x (node1 c) - node_voltage m x (node2 c))
     * (case comp_class c of
          Resistor \<Rightarrow> (node_voltage m x (node1 c) - node_voltage m x (node2 c)) / comp_value c
        | VoltageSource \<Rightarrow>
            (case find_vs (of_class VoltageSource m) 0 (comp_id c) of
               Some k \<Rightarrow> x (spec_N m + k) | None \<Rightarrow> 0)
        | CurrentSource \<Rightarrow> comp_value c)"

text \<open>
  The system \<open>G x = lam Z\<close> of a circuit (\<open>lam\<close> is 1 for the system itself and 0 for
  the homogeneous one), and the same equations written without the positions of the
  voltage sources: Kirchhoff's current law at every non-reference node, with the current
  of a voltage source looked up by the id of the source, and the constraint of every
  voltage source.
\<close>

definition satisfies :: "circuit_model \<Rightarrow> real \<Rightarrow> (nat \<Rightarrow> real) \<Rightarrow> bool" where
  "satisfies m lam x =
     (\<forall>a < spec_N m + spec_M m.
        (\<Sum>b < spec_N m + spec_M m. spec_G m a b * x b) = lam * spec_Z m a)"

definition incidence :: "circuit_model \<Rightarrow> nat \<Rightarrow> int \<Rightarrow> real" where
  "incidence m a t = (if spec_index m t = Some a then 1 else 0)"

definition branch_current :: "circuit_model \<Rightarrow> (nat \<Rightarrow> real) \<Rightarrow> nat \<Rightarrow> real" where
  "branch_current m x i =
     (case find_vs (of_class VoltageSource m) 0 i of
        Some k \<Rightarrow> x (spec_N m + k) | None \<Rightarrow> 0)"

definition kirchhoff :: "circuit_model \<Rightarrow> real \<Rightarrow> (nat \<Rightarrow> real) \<Rightarrow> (nat \<Rightarrow> real) \<Rightarrow> bool" where
  "kirchhoff m lam x cur =
     ((\<forall>a < spec_N m.
         sum_list (map (\<lambda>R. (incidence m a (node1 R) - incidence m a (node2 R))
                          * ((node_voltage m x (node1 R) - node_voltage m x (node2 R)) / comp_value R))
                    (of_class Resistor m))
         + sum_list (map (\<lambda>V. (incidence m a (node1 V) - incidence m a (node2 V)) * cur (comp_id V))
                      (of_class VoltageSource m))
         = lam * sum_list (map (\<lambda>C. current_source_stamp m C a) (of_class CurrentSource m)))
      \<and> (\<forall>V \<in> set (of_class VoltageSource m).
           node_voltage m x (node1 V) - node_voltage m x (node2 V) = lam * comp_value V))"

text \<open>The result record of a component, read off a solution vector.\<close>

definition component_current :: "circuit_model \<Rightarrow> (nat \<Rightarrow> real) \<Rightarrow> component \<Rightarrow> real" where
  "component_current m x c =
     (case comp_class c of
        Resistor \<Rightarrow> (node_voltage m x (node1 c) - node_voltage m x (node2 c)) / comp_value c
      | VoltageSource \<Rightarrow> branch_current m x (comp_id c)
      | CurrentSource \<Rightarrow> comp_value c)"

definition result_of :: "circuit_model \<Rightarrow> (nat \<Rightarrow> real) \<Rightarrow> component \<Rightarrow> component_result" where
  "result_of m x c =
     \<lparr>res_id = comp_id c, res_type = type_name (comp_class c), res_value = comp_value c,
      res_node1 = node1 c, res_node2 = node2 c,
      res_voltage = node_voltage m x (node1 c) - node_voltage m x (node2 c),
      res_current = component_current m x c,
      res_power = (node_voltage m x (node1 c) - node_voltage m x (node2 c))
                  * component_current m x c\<rparr>"

text \<open>
  The solution vector of a circuit carried over to a circuit \<open>m'\<close> with the same
  components in another order: the node voltages stay, and the current of every voltage
  source goes to the position that the source has in \<open>m'\<close>.
\<close>

definition reorder_solution :: "circuit_model \<Rightarrow> circuit_model \<Rightarrow> (nat \<Rightarrow> real) \<Rightarrow> nat \<Rightarrow> real" where
  "reorder_solution m' m x b =
     (if b < spec_N m then x b
      else branch_current m x (comp_id (of_class VoltageSource m' ! (b - spec_N m))))"

text \<open>
  Two models of one circuit: the same reference node, the same unknown node voltages in
  the same order (the solver sorts the nodes), and the same components, in any order.
\<close>

definition reordered :: "circuit_model \<Rightarrow> circuit_model \<Rightarrow> bool" where
  "reordered m' m =
     (reference_node m' = reference_node m
      \<and> get_non_reference_nodes m' = get_non_reference_nodes m
      \<and> mset (components m') = mset (components m))"

section \<open>The solver in double precision\<close>

subsection \<open>Rounding\<close>

text \<open>
  Python's \<open>float\<close> and numpy's \<open>float64\<close> are IEEE 754 doubles: the result of an
  operation is the exact result rounded to the nearest number with a significand of 53
  bits, ties to the even significand. \<open>round_to n y\<close> scales \<open>y\<close> by powers of two until
  its absolute value lies in \<open>[2^52, 2^53)\<close>, where the doubles are the integers, and
  rounds there; \<open>n\<close> bounds the scaling, so that below \<open>2^-1022\<close> the result is a multiple
  of \<open>2^-1074\<close> (the subnormal numbers). Overflow to infinity and NaN are not modelled.
\<close>

definition nearest_even :: "real \<Rightarrow> int" where
  "nearest_even y =
     (let f = \<lfloor>y\<rfloor>; d = y - of_int f
      in if d < 1 / 2 then f else if d > 1 / 2 then f + 1 else if even f then f else f + 1)"

fun round_to :: "nat \<Rightarrow> real \<Rightarrow> real" where
  "round_to 0 y = of_int (nearest_even y)"
| "round_to (Suc n) y =
     (if \<bar>y\<bar> < 2 ^ 52 then round_to n (2 * y) / 2
      else if 2 ^ 53 \<le> \<bar>y\<bar> then round_to n (y / 2) * 2
      else of_int (nearest_even y))"

definition fl :: "real \<Rightarrow> real" where
  "fl x = round_to 1074 x"

text \<open>
  The four operations under a rounding \<open>rd\<close>. With \<open>rd = fl\<close> they are the operations
  of the program; with the identity they are those of exact arithmetic.
\<close>

definition fadd :: "(real \<Rightarrow> real) \<Rightarrow> real \<Rightarrow> real \<Rightarrow> real" where
  "fadd rd x y = rd (x + y)"

definition fsub :: "(real \<Rightarrow> real) \<Rightarrow> real \<Rightarrow> real \<Rightarrow> real" where
  "fsub rd x y = rd (x - y)"

definition fmul :: "(real \<Rightarrow> real) \<Rightarrow> real \<Rightarrow> real \<Rightarrow> real" where
  "fmul rd x y = rd (x * y)"

definition fdiv :: "(real \<Rightarrow> real) \<Rightarrow> real \<Rightarrow> real \<Rightarrow> real" where
  "fdiv rd x y = rd (x / y)"

subsection \<open>Assembly\<close>

text \<open>
  The functions of \<open>circuit_solver.py\<close> once more, every arithmetic operation rounded by
  \<open>rd\<close>. The stamps of the voltage sources are assignments and need no arithmetic.
\<close>

definition vec_add_fp :: "(real \<Rightarrow> real) \<Rightarrow> vector \<Rightarrow> nat \<Rightarrow> real \<Rightarrow> error + vector" where
  "vec_add_fp rd Z i v =
     (if i < length Z then Inr (Z[i := fadd rd (Z ! i) v]) else Inl IndexError)"

definition vec_sub_fp :: "(real \<Rightarrow> real) \<Rightarrow> vector \<Rightarrow> nat \<Rightarrow> real \<Rightarrow> error + vector" where
  "vec_sub_fp rd Z i v =
     (if i < length Z then Inr (Z[i := fsub rd (Z ! i) v]) else Inl IndexError)"

definition mat_add_fp ::
  "(real \<Rightarrow> real) \<Rightarrow> matrix \<Rightarrow> nat \<Rightarrow> nat \<Rightarrow> real \<Rightarrow> error + matrix" where
  "mat_add_fp rd G i j v =
     (if i < length G \<and> j < length (G ! i)
      then Inr (G[i := (G ! i)[j := fadd rd (G ! i ! j) v]])
      else Inl IndexError)"

definition mat_sub_fp ::
  "(real \<Rightarrow> real) \<Rightarrow> matrix \<Rightarrow> nat \<Rightarrow> nat \<Rightarrow> real \<Rightarrow> error + matrix" where
  "mat_sub_fp rd G i j v =
     (if i < length G \<and> j < length (G ! i)
      then Inr (G[i := (G ! i)[j := fsub rd (G ! i ! j) v]])
      else Inl IndexError)"

definition stamp_resistor_fp ::
  "(real \<Rightarrow> real) \<Rightarrow> solver \<Rightarrow> component \<Rightarrow> matrix \<Rightarrow> error + matrix" where
  "stamp_resistor_fp rd s resistor G =
     (let n1 = node1 resistor; n2 = node2 resistor in
      if comp_value resistor = 0 then Inl ZeroDivisionError
      else
        (let g = fdiv rd 1 (comp_value resistor) in
         if n1 \<noteq> ref_node s \<and> n2 \<noteq> ref_node s then
           and_then (node_to_index s n1) (\<lambda>i.
           and_then (node_to_index s n2) (\<lambda>j.
           and_then (mat_add_fp rd G i i g) (\<lambda>G1.
           and_then (mat_add_fp rd G1 j j g) (\<lambda>G2.
           and_then (mat_sub_fp rd G2 i j g) (\<lambda>G3.
             mat_sub_fp rd G3 j i g)))))
         else if n1 \<noteq> ref_node s \<and> n2 = ref_node s then
           and_then (node_to_index s n1) (\<lambda>i. mat_add_fp rd G i i g)
         else if n2 \<noteq> ref_node s \<and> n1 = ref_node s then
           and_then (node_to_index s n2) (\<lambda>j. mat_add_fp rd G j j g)
         else Inr G))"

fun stamp_conductances_fp ::
  "(real \<Rightarrow> real) \<Rightarrow> solver \<Rightarrow> component list \<Rightarrow> matrix \<Rightarrow> error + matrix" where
  "stamp_conductances_fp rd s [] G = Inr G"
| "stamp_conductances_fp rd s (resistor # rest) G =
     and_then (stamp_resistor_fp rd s resistor G) (stamp_conductances_fp rd s rest)"

definition stamp_current_source_fp ::
  "(real \<Rightarrow> real) \<Rightarrow> solver \<Rightarrow> component \<Rightarrow> vector \<Rightarrow> error + vector" where
  "stamp_current_source_fp rd s cs Z =
     (let n1 = node1 cs; n2 = node2 cs; current = comp_value cs in
      and_then
        (if n1 \<noteq> ref_node s
         then and_then (node_to_index s n1) (\<lambda>i. vec_sub_fp rd Z i current)
         else Inr Z)
        (\<lambda>Z1.
           if n2 \<noteq> ref_node s
           then and_then (node_to_index s n2) (\<lambda>j. vec_add_fp rd Z1 j current)
           else Inr Z1))"

fun stamp_current_sources_fp ::
  "(real \<Rightarrow> real) \<Rightarrow> solver \<Rightarrow> component list \<Rightarrow> vector \<Rightarrow> error + vector" where
  "stamp_current_sources_fp rd s [] Z = Inr Z"
| "stamp_current_sources_fp rd s (cs # rest) Z =
     and_then (stamp_current_source_fp rd s cs Z) (stamp_current_sources_fp rd s rest)"

definition build_mna_system_fp :: "(real \<Rightarrow> real) \<Rightarrow> solver \<Rightarrow> error + matrix \<times> vector" where
  "build_mna_system_fp rd s =
     (let size = num_nodes s + num_vs s;
          G = zeros2 size size;
          Z = zeros size in
      and_then (stamp_conductances_fp rd s (resistors s) G) (\<lambda>G1.
      and_then (stamp_current_sources_fp rd s (current_sources s) Z) (\<lambda>Z1.
        stamp_voltage_sources s 0 (voltage_sources s) (G1, Z1))))"

subsection \<open>\<open>numpy.linalg.solve\<close> in double precision\<close>

text \<open>
  The same elimination with partial pivoting as \<open>gauss\<close>, every operation rounded by
  itself: the multiplier of a row is the quotient of its leading coefficient by the pivot,
  a coefficient \<open>c\<close> becomes \<open>c - l * p\<close>, and an unknown is the right-hand side less the
  products with the unknowns after it, the last one first, divided by the pivot. A pivot
  that is exactly zero gives \<open>None\<close>, the library's \<open>LinAlgError\<close>; no other pivot does.
\<close>

definition eliminate_fp :: "(real \<Rightarrow> real) \<Rightarrow> equation \<Rightarrow> equation \<Rightarrow> equation" where
  "eliminate_fp rd piv row =
     (let l = fdiv rd (hd (fst row)) (hd (fst piv))
      in (map2 (\<lambda>c p. fsub rd c (fmul rd l p)) (tl (fst row)) (tl (fst piv)),
          fsub rd (snd row) (fmul rd l (snd piv))))"

definition back_substitute :: "(real \<Rightarrow> real) \<Rightarrow> real \<Rightarrow> real list \<Rightarrow> real list \<Rightarrow> real" where
  "back_substitute rd b cs xs = foldr (\<lambda>cx acc. fsub rd acc (fmul rd (fst cx) (snd cx))) (zip cs xs) b"

fun gauss_fp :: "(real \<Rightarrow> real) \<Rightarrow> nat \<Rightarrow> equation list \<Rightarrow> vector option" where
  "gauss_fp rd 0 rows = Some []"
| "gauss_fp rd (Suc n) rows =
     (let p = pivot_row (map (\<lambda>r. hd (fst r)) rows);
          piv = rows ! p
      in if hd (fst piv) = 0 then None
         else (case gauss_fp rd n (map (eliminate_fp rd piv) (tl (rows[p := hd rows]))) of
                 None \<Rightarrow> None
               | Some xs \<Rightarrow>
                   Some (fdiv rd (back_substitute rd (snd piv) (tl (fst piv)) xs) (hd (fst piv))
                         # xs)))"

definition linalg_solve_fp :: "(real \<Rightarrow> real) \<Rightarrow> matrix \<Rightarrow> vector \<Rightarrow> error + vector" where
  "linalg_solve_fp rd G Z =
     (if \<not> list_all (\<lambda>row. length row = length G) G then Inl LinAlgError
      else if length Z \<noteq> length G then Inl ValueError
      else (case gauss_fp rd (length G) (zip G Z) of
              None \<Rightarrow> Inl LinAlgError | Some X \<Rightarrow> Inr X))"

subsection \<open>Packaging\<close>

definition calculate_component_result_fp ::
  "(real \<Rightarrow> real) \<Rightarrow> solver \<Rightarrow> component \<Rightarrow> (int \<times> real) list \<Rightarrow> vector
     \<Rightarrow> error + component_result" where
  "calculate_component_result_fp rd s c vm vs_currents =
     (let v1 = voltage_at vm (node1 c);
          v2 = voltage_at vm (node2 c);
          voltage = fsub rd v1 v2
      in and_then
           (case comp_class c of
              Resistor \<Rightarrow>
                (if comp_value c = 0 then Inl ZeroDivisionError
                 else Inr (fdiv rd voltage (comp_value c)))
            | VoltageSource \<Rightarrow>
                (case find_vs (voltage_sources s) 0 (comp_id c) of
                   None \<Rightarrow> Inr 0
                 | Some vs_idx \<Rightarrow>
                     (if vs_idx < length vs_currents then Inr (vs_currents ! vs_idx)
                      else Inl IndexError))
            | CurrentSource \<Rightarrow> Inr (comp_value c))
           (\<lambda>current.
              Inr \<lparr>res_id = comp_id c, res_type = type_name (comp_class c),
                   res_value = comp_value c, res_node1 = node1 c, res_node2 = node2 c,
                   res_voltage = voltage, res_current = current,
                   res_power = fmul rd voltage current\<rparr>))"

fun component_results_fp ::
  "(real \<Rightarrow> real) \<Rightarrow> solver \<Rightarrow> component list \<Rightarrow> (int \<times> real) list \<Rightarrow> vector
     \<Rightarrow> error + component_result list" where
  "component_results_fp rd s [] vm vs_currents = Inr []"
| "component_results_fp rd s (c # rest) vm vs_currents =
     and_then (calculate_component_result_fp rd s c vm vs_currents) (\<lambda>r.
     and_then (component_results_fp rd s rest vm vs_currents) (\<lambda>rs. Inr (r # rs)))"

text \<open>\<open>total_power += result["power"]\<close>, from \<open>0.0\<close>, in the order of the components.\<close>

definition sum_fp :: "(real \<Rightarrow> real) \<Rightarrow> real list \<Rightarrow> real" where
  "sum_fp rd ps = foldl (fadd rd) 0 ps"

text \<open>The product \<open>G @ X\<close> row by row, the products of a row added up from the left.\<close>

definition dot_fp :: "(real \<Rightarrow> real) \<Rightarrow> real list \<Rightarrow> real list \<Rightarrow> real" where
  "dot_fp rd cs xs = foldl (\<lambda>acc cx. fadd rd acc (fmul rd (fst cx) (snd cx))) 0 (zip cs xs)"

definition build_matrix_info_fp :: "(real \<Rightarrow> real) \<Rightarrow> matrix \<Rightarrow> vector \<Rightarrow> vector \<Rightarrow> matrix_info" where
  "build_matrix_info_fp rd G Z X =
     (if G = [] \<or> \<not> list_all (\<lambda>row. length row = length X) G \<or> length Z \<noteq> length G
      then \<lparr>conductance_matrix = [], current_vector = [], voltage_solution = [],
            residual = [], max_error = 0\<rparr>
      else
        (let r = map2 (fsub rd) (map (\<lambda>row. dot_fp rd row X) G) Z
         in \<lparr>conductance_matrix = G, current_vector = Z, voltage_solution = X,
              residual = r, max_error = foldr max (map abs r) 0\<rparr>))"

definition package_solution_fp ::
  "(real \<Rightarrow> real) \<Rightarrow> solver \<Rightarrow> vector \<Rightarrow> vector \<Rightarrow> matrix \<Rightarrow> vector \<Rightarrow> error + solution" where
  "package_solution_fp rd s node_voltages vs_currents G Z =
     and_then (fill_voltages s 0 node_voltages [(ref_node s, 0)]) (\<lambda>vm.
     and_then (component_results_fp rd s (components (model s)) vm vs_currents) (\<lambda>rs.
       Inr \<lparr>voltages = vm,
            results = rs,
            total_power = sum_fp rd (map res_power rs),
            matrix_solution = build_matrix_info_fp rd G Z (node_voltages @ vs_currents),
            total_components = length (components (model s)),
            solved_nodes = length vm,
            power_balance = (\<bar>sum_fp rd (map res_power rs)\<bar> < rd (1 / 10 ^ 9))\<rparr>))"

definition solve_fp :: "(real \<Rightarrow> real) \<Rightarrow> solver \<Rightarrow> solve_result" where
  "solve_fp rd s =
     (case build_mna_system_fp rd s of
        Inl e \<Rightarrow> on_exception e
      | Inr GZ \<Rightarrow>
          (case linalg_solve_fp rd (fst GZ) (snd GZ) of
             Inl e \<Rightarrow> on_exception e
           | Inr X \<Rightarrow>
               (case package_solution_fp rd s (take (num_nodes s) X) (drop (num_nodes s) X)
                       (fst GZ) (snd GZ) of
                  Inl e \<Rightarrow> on_exception e
                | Inr sol \<Rightarrow> Solved sol)))"

subsection \<open>Circuits for the evaluation in double precision\<close>

text \<open>
  A ladder of four resistors with a current source, and the same list with two resistors
  swapped; a circuit with conductances of very different size (\<open>fl (1 / 1000)\<close> is
  the double that the literal \<open>0.001\<close> denotes); a loop of three resistors with no
  connection to the reference node; the two voltage sources in parallel; and a current
  source that feeds two resistors in parallel.
\<close>

definition ladder :: "component list" where
  "ladder = [comp 0 Resistor 1000000 1 0, comp 1 Resistor 1 1 2, comp 2 Resistor 1000 1 0, comp 3 Resistor 1000000 2 0, comp 4 CurrentSource 100 1 0]"

definition ladder_swapped :: "component list" where
  "ladder_swapped = [comp 0 Resistor 1000000 1 0, comp 2 Resistor 1000 1 0, comp 1 Resistor 1 1 2, comp 3 Resistor 1000000 2 0, comp 4 CurrentSource 100 1 0]"

definition stiff :: "component list" where
  "stiff = [comp 0 CurrentSource (fl (1 / 1000)) 0 1, comp 1 Resistor (fl (1 / 1000000)) 1 2,
            comp 2 Resistor 1000000000 2 0]"



definition parallel_pair :: "component list" where
  "parallel_pair = [comp 0 CurrentSource 100 0 1, comp 1 Resistor 300000 1 0, comp 2 Resistor 700000 1 0]"

text \<open>
  The tolerance of the conservation property, \<open>10^-6 * (1 + max|V| * max|I|)\<close>, over
  the voltages of the nodes and the currents of the components of a solution.
\<close>

definition max_abs :: "real list \<Rightarrow> real" where
  "max_abs xs = foldr max (map abs xs) 0"

definition power_tolerance :: "solution \<Rightarrow> real" where
  "power_tolerance sol =
     1 / 10 ^ 6 * (1 + max_abs (map snd (voltages sol)) * max_abs (map res_current (results sol)))"

section \<open>Properties\<close>


subsection \<open>Evaluation rules\<close>

lemmas model_defs =
  comp_def make_circuit_def add_all_def new_model_def add_component_def mark_reference_def
  set_add_def same_edge_def get_non_reference_nodes_def of_class_def

lemmas analyzer_defs =
  analyze_def find_supernodes_def connected_components_def merge_edge_def ensure_node_def
  touches_def get_grounded_supernodes_def Let_def

subsection \<open>Adding a component\<close>

lemma dict_set_member: "c \<in> set (dict_set ds c)"
  by (induction ds) auto

lemma set_set_add: "set (set_add s n) = insert n (set s)"
  by (auto simp: set_add_def)

lemma distinct_set_add: "distinct s \<Longrightarrow> distinct (set_add s n)"
  by (auto simp: set_add_def)

lemma nodes_add_component:
  "set (nodes (add_component m c)) = insert (node1 c) (insert (node2 c) (set (nodes m)))"
  by (auto simp: add_component_def set_set_add)

text \<open>
  C7 (as stated): a component with equal terminals is refused with a SelfLoop error and
  the circuit stays as it was. Counterexample: the resistor \<open>Resistor(100, 1, 1)\<close> is
  constructed without an error, and adding it to the new model stores it and puts node 1
  into the node set.
\<close>

theorem self_loop_counterexample:
  "new_component (\<lambda>s. None) Resistor 0 (PInt 100) (PInt 1) (PInt 1) = Inr (comp 0 Resistor 100 1 1)
   \<and> components (add_component new_model (comp 0 Resistor 100 1 1)) = [comp 0 Resistor 100 1 1]
   \<and> components (add_component new_model (comp 0 Resistor 100 1 1)) \<noteq> components new_model
   \<and> nodes (add_component new_model (comp 0 Resistor 100 1 1)) = [1]
   \<and> nodes (add_component new_model (comp 0 Resistor 100 1 1)) \<noteq> nodes new_model"
  by (simp add: new_component_def and_then_def parse_node_def model_defs)

text \<open>
  C7 (amended): \<open>add_component\<close> has no check and cannot fail. A component of any class
  whose two terminals are the same node is inserted like any other: afterwards it is
  among the circuit's components and its node is in the node set.
\<close>

theorem self_loop_is_inserted:
  "node1 c = node2 c \<Longrightarrow>
     c \<in> set (components (add_component m c))
     \<and> set (nodes (add_component m c)) = insert (node1 c) (set (nodes m))"
  by (simp add: nodes_add_component) (simp add: add_component_def dict_set_member)

theorem self_loop_is_inserted_witness:
  "node1 (comp 0 VoltageSource 5 2 2) = node2 (comp 0 VoltageSource 5 2 2)
   \<and> comp 0 VoltageSource 5 2 2 \<in> set (components (add_component new_model (comp 0 VoltageSource 5 2 2)))
   \<and> set (nodes (add_component new_model (comp 0 VoltageSource 5 2 2)))
       = insert (node1 (comp 0 VoltageSource 5 2 2)) (set (nodes new_model))"
  using self_loop_is_inserted [of "comp 0 VoltageSource 5 2 2" new_model]
  by (simp add: comp_def)

subsection \<open>The analyzer on the circuit of \<open>test.py\<close>\<close>

lemma analyze_test_circuit:
  "analyze test_circuit =
     \<lparr>a_reference_node = 0, non_reference_nodes = [1, 2, 3, 4], num_non_reference_nodes = 4,
      supernodes = [[4, 2], [1, 0]], grounded_supernodes = [[1, 0]],
      ungrounded_supernodes = [[4, 2]], regular_nodes = [3], num_kcl_equations = 2,
      num_constraint_equations = 2, num_voltage_sources = 2, total_equations = 4\<rparr>"
  by (simp add: test_circuit_def model_defs analyzer_defs)

text \<open>
  C4 (as stated): on this circuit the analyzer reports the supernodes \<open>{{2,4}}\<close>, no
  grounded supernode, the regular nodes \<open>{1, 3}\<close> and 3 KCL equations. Counterexample:
  the source VS1 between node 1 and the reference makes \<open>{0, 1}\<close> a supernode, which is
  grounded, so node 1 is not regular and there are 2 KCL equations.
\<close>

theorem test_circuit_counterexample:
  "\<not> (set (map set (supernodes (analyze test_circuit))) = {{2, 4}}
      \<and> grounded_supernodes (analyze test_circuit) = []
      \<and> set (map set (ungrounded_supernodes (analyze test_circuit))) = {{2, 4}}
      \<and> set (regular_nodes (analyze test_circuit)) = {1, 3}
      \<and> num_kcl_equations (analyze test_circuit) = 3
      \<and> num_constraint_equations (analyze test_circuit) = 2)"
  by (simp add: analyze_test_circuit)

text \<open>
  C4 (amended): on this circuit the analyzer reports the supernodes \<open>{{0,1}, {2,4}}\<close>,
  the grounded supernodes \<open>{{0,1}}\<close>, the ungrounded supernodes \<open>{{2,4}}\<close>, the regular
  nodes \<open>{3}\<close>, and 2 KCL equations plus 2 constraint equations, 4 in all.
\<close>

theorem test_circuit_topology:
  "set (map set (supernodes (analyze test_circuit))) = {{0, 1}, {2, 4}}
   \<and> set (map set (grounded_supernodes (analyze test_circuit))) = {{0, 1}}
   \<and> set (map set (ungrounded_supernodes (analyze test_circuit))) = {{2, 4}}
   \<and> set (regular_nodes (analyze test_circuit)) = {3}
   \<and> num_kcl_equations (analyze test_circuit) = 2
   \<and> num_constraint_equations (analyze test_circuit) = 2
   \<and> total_equations (analyze test_circuit) = 4"
  by (auto simp add: analyze_test_circuit)

subsection \<open>The connected components form a partition\<close>

lemma set_concat_split:
  "set (concat (filter P cls)) \<union> set (concat (filter (\<lambda>c. \<not> P c) cls)) = set (concat cls)"
  by (induction cls) auto

lemma distinct_concat_split:
  "distinct (concat cls) \<Longrightarrow>
     distinct (concat (filter P cls) @ concat (filter (\<lambda>c. \<not> P c) cls))"
proof (induction cls)
  case Nil
  then show ?case by simp
next
  case (Cons c cls)
  have sub: "set (concat (filter P cls)) \<subseteq> set (concat cls)"
       "set (concat (filter (\<lambda>c. \<not> P c) cls)) \<subseteq> set (concat cls)"
    using set_concat_split [of P cls] by blast+
  from Cons show ?case using sub by (cases "P c") auto
qed


lemma ensure_node_ok:
  "partition_ok cls \<Longrightarrow> partition_ok (ensure_node cls u)"
  by (auto simp: partition_ok_def ensure_node_def)

lemma set_ensure_node:
  "set (concat (ensure_node cls u)) = insert u (set (concat cls))"
  by (auto simp: ensure_node_def)

lemma merge_edge_ok:
  assumes "partition_ok cls"
  shows "partition_ok (merge_edge cls (u, v))"
proof -
  define cls' where "cls' = ensure_node (ensure_node cls u) v"
  have ok: "partition_ok cls'"
    unfolding cls'_def using assms by (intro ensure_node_ok)
  have "u \<in> set (concat cls')"
    unfolding cls'_def by (simp add: set_ensure_node del: set_concat)
  then obtain c where c: "c \<in> set cls'" "u \<in> set c" by auto
  then have "concat (filter (touches u v) cls') \<noteq> []"
    by (auto simp: touches_def filter_empty_conv)
  moreover have "distinct (concat (filter (touches u v) cls') @ concat (filter (\<lambda>c. \<not> touches u v c) cls'))"
    using ok by (intro distinct_concat_split) (simp add: partition_ok_def)
  moreover have "[] \<notin> set (filter (\<lambda>c. \<not> touches u v c) cls')"
    using ok by (simp add: partition_ok_def)
  ultimately show ?thesis
    by (simp add: merge_edge_def partition_ok_def cls'_def [symmetric] Let_def)
qed

lemma set_merge_edge:
  "set (concat (merge_edge cls (u, v))) = insert u (insert v (set (concat cls)))"
proof -
  have "set (concat (merge_edge cls (u, v))) = set (concat (ensure_node (ensure_node cls u) v))"
    using set_concat_split [of "touches u v" "ensure_node (ensure_node cls u) v"]
    by (simp add: merge_edge_def Let_def del: set_concat)
  then show ?thesis by (auto simp: set_ensure_node simp del: set_concat)
qed

lemma foldl_merge_edge_ok:
  "partition_ok cls \<Longrightarrow> partition_ok (foldl merge_edge cls es)"
  by (induction es arbitrary: cls) (auto simp: merge_edge_ok)

lemma set_foldl_merge_edge:
  "set (concat (foldl merge_edge cls es)) = set (concat cls) \<union> fst ` set es \<union> snd ` set es"
  by (induction es arbitrary: cls) (auto simp: set_merge_edge simp del: set_concat)

lemma connected_components_ok:
  "distinct ns \<Longrightarrow> partition_ok (connected_components ns es)"
  unfolding connected_components_def
  by (rule foldl_merge_edge_ok) (auto simp: partition_ok_def distinct_concat_iff distinct_map inj_on_def)

lemma set_connected_components:
  "set (concat (connected_components ns es)) = set ns \<union> fst ` set es \<union> snd ` set es"
  unfolding connected_components_def by (simp add: set_foldl_merge_edge del: set_concat)

lemma class_unique:
  "distinct (concat cls) \<Longrightarrow> c \<in> set cls \<Longrightarrow> d \<in> set cls \<Longrightarrow> n \<in> set c \<Longrightarrow> n \<in> set d \<Longrightarrow> c = d"
  by (induction cls) auto

lemma length_filter_neq:
  "distinct c \<Longrightarrow> length (filter (\<lambda>n. n \<noteq> r) c) = length c - (if r \<in> set c then 1 else 0)"
proof (induction c)
  case Nil
  then show ?case by simp
next
  case (Cons a c)
  have "r \<in> set c \<Longrightarrow> 0 < length c" by (rule length_pos_if_in_set)
  with Cons show ?case by auto
qed

lemma count_classes:
  assumes "distinct (concat cls)" "[] \<notin> set cls"
    and "\<And>c n. c \<in> set cls \<Longrightarrow> n \<in> set c \<Longrightarrow> insuper n \<longleftrightarrow> length c > 1"
  shows "length (filter (\<lambda>n. n \<noteq> r) (concat cls))
       = length (filter (\<lambda>n. n \<noteq> r \<and> \<not> insuper n) (concat cls))
         + sum_list (map (\<lambda>c. length c - 1) (filter (\<lambda>c. length c > 1) cls))
         + length (filter (\<lambda>c. r \<notin> set c) (filter (\<lambda>c. length c > 1) cls))"
  using assms
proof (induction cls)
  case Nil
  then show ?case by simp
next
  case (Cons c cls)
  have IH: "length (filter (\<lambda>n. n \<noteq> r) (concat cls))
       = length (filter (\<lambda>n. n \<noteq> r \<and> \<not> insuper n) (concat cls))
         + sum_list (map (\<lambda>c. length c - 1) (filter (\<lambda>c. length c > 1) cls))
         + length (filter (\<lambda>c. r \<notin> set c) (filter (\<lambda>c. length c > 1) cls))"
    using Cons by auto
  have dc: "distinct c" and ne: "c \<noteq> []" using Cons.prems by auto
  show ?case
  proof (cases "length c > 1")
    case True
    then have "\<And>n. n \<in> set c \<Longrightarrow> insuper n" using Cons.prems(3) by auto
    then have "filter (\<lambda>n. n \<noteq> r \<and> \<not> insuper n) c = []" by (auto simp: filter_empty_conv)
    then show ?thesis using True IH length_filter_neq [OF dc, of r] by auto
  next
    case False
    then have "\<And>n. n \<in> set c \<Longrightarrow> \<not> insuper n" using Cons.prems(3) by auto
    then have "filter (\<lambda>n. n \<noteq> r \<and> \<not> insuper n) c = filter (\<lambda>n. n \<noteq> r) c"
      by (auto intro: filter_cong)
    then show ?thesis using False IH by auto
  qed
qed

lemma length_filter_same_set:
  assumes "distinct xs" "distinct ys" "set xs = set ys"
  shows "length (filter P xs) = length (filter P ys)"
proof -
  have "length (filter P xs) = card (set (filter P xs))"
    using assms(1) distinct_card [of "filter P xs"] by simp
  also have "\<dots> = card (set (filter P ys))" using assms(3) by simp
  also have "\<dots> = length (filter P ys)"
    using assms(2) distinct_card [of "filter P ys"] by simp
  finally show ?thesis .
qed


lemma set_dict_set: "set (dict_set ds c) \<subseteq> insert c (set ds)"
  by (induction ds) auto

lemma ids_dict_set: "set (map comp_id (dict_set ds c)) = insert (comp_id c) (set (map comp_id ds))"
  by (induction ds) auto

lemma distinct_dict_set:
  "distinct (map comp_id ds) \<Longrightarrow> distinct (map comp_id (dict_set ds c))"
proof (induction ds)
  case Nil
  then show ?case by simp
next
  case (Cons d ds)
  show ?case
  proof (cases "comp_id d = comp_id c")
    case True
    then show ?thesis using Cons.prems by simp
  next
    case False
    have "comp_id d \<notin> set (map comp_id (dict_set ds c))"
      using Cons.prems False by (simp only: ids_dict_set) simp
    then show ?thesis using Cons False by simp
  qed
qed

lemma add_component_ok: "model_ok m \<Longrightarrow> model_ok (add_component m c)"
  using set_dict_set [of "components m" c]
  by (auto simp: model_ok_def terminals_in_nodes_def add_component_def set_set_add
      distinct_set_add distinct_dict_set)

lemma add_all_ok: "model_ok m \<Longrightarrow> model_ok (add_all m cs)"
  unfolding add_all_def by (induction cs arbitrary: m) (auto simp: add_component_ok)

lemma mark_reference_ok: "model_ok m \<Longrightarrow> model_ok (mark_reference m r)"
  by (auto simp: model_ok_def terminals_in_nodes_def mark_reference_def set_set_add distinct_set_add)

lemma make_circuit_ok: "model_ok (make_circuit cs r)"
  unfolding make_circuit_def
  by (intro mark_reference_ok add_all_ok) (simp add: model_ok_def terminals_in_nodes_def new_model_def)

lemma equation_count_model:
  assumes "model_ok m"
  shows "length (regular_nodes (analyze m)) + length (ungrounded_supernodes (analyze m))
         + sum_list (map (\<lambda>sn. length sn - 1) (supernodes (analyze m)))
         = length (non_reference_nodes (analyze m))"
proof -
  define r where "r = reference_node m"
  define es where "es = map (\<lambda>vs. (node1 vs, node2 vs)) (of_class VoltageSource m)"
  define cls where "cls = connected_components (nodes m) es"
  define sns where "sns = filter (\<lambda>c. length c > 1) cls"
  define insuper where "insuper = (\<lambda>n. list_ex (\<lambda>sn. n \<in> set sn) sns)"
  have dn: "distinct (nodes m)" using assms by (simp add: model_ok_def)
  have ends: "fst ` set es \<union> snd ` set es \<subseteq> set (nodes m)"
    using assms by (auto simp: model_ok_def terminals_in_nodes_def es_def of_class_def)
  have ok: "partition_ok cls" unfolding cls_def using dn by (rule connected_components_ok)
  then have dc: "distinct (concat cls)" and ne: "[] \<notin> set cls"
    by (simp_all add: partition_ok_def)
  have sc: "set (concat cls) = set (nodes m)"
    unfolding cls_def using ends by (simp only: set_connected_components) blast
  have sup: "\<And>c n. c \<in> set cls \<Longrightarrow> n \<in> set c \<Longrightarrow> insuper n \<longleftrightarrow> length c > 1"
  proof -
    fix c n assume c: "c \<in> set cls" "n \<in> set c"
    show "insuper n \<longleftrightarrow> length c > 1"
    proof
      assume "insuper n"
      then obtain d where d: "d \<in> set cls" "length d > 1" "n \<in> set d"
        by (auto simp: insuper_def sns_def list_ex_iff)
      with c dc have "c = d" by (blast intro: class_unique)
      with d show "length c > 1" by simp
    next
      assume "length c > 1"
      with c show "insuper n" by (auto simp: insuper_def sns_def list_ex_iff)
    qed
  qed
  have count: "length (filter (\<lambda>n. n \<noteq> r) (concat cls))
       = length (filter (\<lambda>n. n \<noteq> r \<and> \<not> insuper n) (concat cls))
         + sum_list (map (\<lambda>c. length c - 1) sns)
         + length (filter (\<lambda>c. r \<notin> set c) sns)"
    unfolding sns_def using dc ne sup by (rule count_classes)
  have nonref: "length (non_reference_nodes (analyze m)) = length (filter (\<lambda>n. n \<noteq> r) (concat cls))"
    using length_filter_same_set [OF dn dc sc [symmetric], of "\<lambda>n. n \<noteq> r"]
    by (simp add: analyze_def Let_def get_non_reference_nodes_def r_def)
  have sn_eq: "find_supernodes m = sns"
    by (simp add: find_supernodes_def sns_def cls_def es_def)
  have reg: "length (regular_nodes (analyze m))
       = length (filter (\<lambda>n. n \<noteq> r \<and> \<not> insuper n) (concat cls))"
  proof -
    have "regular_nodes (analyze m)
        = sort (filter (\<lambda>n. n \<noteq> r \<and> \<not> insuper n) (nodes m))"
      by (simp add: analyze_def Let_def get_non_reference_nodes_def r_def sn_eq insuper_def
          filter_sort conj_commute)
    then show ?thesis
      using length_filter_same_set [OF dn dc sc [symmetric], of "\<lambda>n. n \<noteq> r \<and> \<not> insuper n"]
      by simp
  qed
  have ung: "ungrounded_supernodes (analyze m) = filter (\<lambda>c. r \<notin> set c) sns"
    by (simp add: analyze_def Let_def sn_eq r_def)
  have sn: "supernodes (analyze m) = sns"
    by (simp add: analyze_def Let_def sn_eq)
  show ?thesis using count by (simp add: nonref reg ung sn)
qed

text \<open>
  C2 (as stated): regular nodes plus ungrounded supernodes are as many as the
  non-reference nodes. Counterexample: the source \<open>VS(10, 1, 0)\<close> with the resistor
  \<open>R(1000, 1, 0)\<close>, reference node 0. Node 1 lies in the grounded supernode \<open>{0, 1}\<close>:
  no regular node, no ungrounded supernode, one non-reference node.
\<close>

theorem equation_count_counterexample:
  "\<not> (length (regular_nodes (analyze (make_circuit
             [comp 0 VoltageSource 10 1 0, comp 1 Resistor 1000 1 0] 0)))
        + length (ungrounded_supernodes (analyze (make_circuit
             [comp 0 VoltageSource 10 1 0, comp 1 Resistor 1000 1 0] 0)))
      = length (non_reference_nodes (analyze (make_circuit
             [comp 0 VoltageSource 10 1 0, comp 1 Resistor 1000 1 0] 0))))"
  by (simp add: model_defs analyzer_defs)

text \<open>
  C2 (amended): for every circuit built from components and a reference node, the
  regular nodes, the ungrounded supernodes and, for every supernode, its size less one
  add up to the number of non-reference nodes. So the analyzer's KCL count falls short of
  the non-reference nodes by the sum of (size - 1) over the supernodes, and equals it
  when no voltage source joins two nodes.
\<close>

theorem equation_count:
  "length (regular_nodes (analyze (make_circuit cs r)))
   + length (ungrounded_supernodes (analyze (make_circuit cs r)))
   + sum_list (map (\<lambda>sn. length sn - 1) (supernodes (analyze (make_circuit cs r))))
   = length (non_reference_nodes (analyze (make_circuit cs r)))"
  using make_circuit_ok by (rule equation_count_model)

subsection \<open>Ingest\<close>

lemmas string_defs =
  upper_def upper_char_def strip_def is_space_def is_digit_def digit_val_def digits_value_def
  int_of_string_def

lemmas ingest_defs =
  build_circuit_model_def ingest_record_def netlist_record_def component_map_def
  checked_value_def new_component_def parse_node_def set_reference_node_def and_then_def

text \<open>
  C9: a record whose \<open>nodeA\<close> is the token \<open>GND\<close> is accepted by the entry point and the
  terminal becomes node 0. The code at the record
  \<open>{type: "R", value: 100, nodeA: "GND", nodeB: 1}\<close>: \<open>_build_circuit_model\<close> applies
  \<open>int(...)\<close> to the field, which raises \<open>ValueError\<close>, before the constructor is called;
  the constructor itself, given the token, maps it to node 0, and the same netlist with
  the integer 0 is accepted.
\<close>

theorem gnd_token_rejected_at_entry:
  "build_circuit_model str_to_float
     (PList [netlist_record ''R'' (PInt 100) (PStr ''GND'') (PInt 1)]) = Inl ValueError
   \<and> new_component str_to_float Resistor 0 (PInt 100) (PStr ''GND'') (PInt 1)
       = Inr (comp 0 Resistor 100 0 1)
   \<and> build_circuit_model str_to_float
       (PList [netlist_record ''R'' (PInt 100) (PInt 0) (PInt 1)])
       = Inr (make_circuit [comp 0 Resistor 100 0 1] 0)"
  by (simp add: ingest_defs string_defs model_defs)

subsection \<open>Gaussian elimination solves the system\<close>

lemma dot_Nil [simp]: "dot [] xs = 0" "dot cs [] = 0"
  by (simp_all add: dot_def)

lemma dot_Cons [simp]: "dot (c # cs) (x # xs) = c * x + dot cs xs"
  by (simp add: dot_def)

lemma dot_zeros [simp]: "dot cs (replicate n 0) = 0"
proof (induction cs arbitrary: n)
  case Nil
  then show ?case by simp
next
  case (Cons c cs)
  then show ?case by (cases n) auto
qed

lemma dot_eliminate:
  "length cs = length as \<Longrightarrow> length as = length xs \<Longrightarrow>
     dot (map2 (\<lambda>c p. c - l * p) cs as) xs = dot cs xs - l * dot as xs"
  by (induction cs as xs rule: list_induct3) (auto simp: algebra_simps)

lemma dot_add:
  "length cs = length x \<Longrightarrow> length x = length y \<Longrightarrow>
     dot cs (map2 (+) x y) = dot cs x + dot cs y"
  by (induction cs x y rule: list_induct3) (auto simp: algebra_simps)

lemma pivot_from_max:
  assumes "length pre = i" "best < i" "bv = \<bar>(pre @ hs) ! best\<bar>" "\<forall>h \<in> set pre. \<bar>h\<bar> \<le> bv"
  shows "pivot_from best bv i hs < length (pre @ hs)
         \<and> (\<forall>h \<in> set (pre @ hs). \<bar>h\<bar> \<le> \<bar>(pre @ hs) ! pivot_from best bv i hs\<bar>)"
  using assms
proof (induction hs arbitrary: best bv i pre)
  case Nil
  then show ?case by auto
next
  case (Cons h hs)
  show ?case
  proof (cases "\<bar>h\<bar> > bv")
    case True
    have "pivot_from i \<bar>h\<bar> (Suc i) hs < length ((pre @ [h]) @ hs)
         \<and> (\<forall>x \<in> set ((pre @ [h]) @ hs). \<bar>x\<bar> \<le> \<bar>((pre @ [h]) @ hs) ! pivot_from i \<bar>h\<bar> (Suc i) hs\<bar>)"
      using Cons.prems True by (intro Cons.IH) (auto simp: nth_append)
    then show ?thesis using True by simp
  next
    case False
    have "pivot_from best bv (Suc i) hs < length ((pre @ [h]) @ hs)
         \<and> (\<forall>x \<in> set ((pre @ [h]) @ hs). \<bar>x\<bar> \<le> \<bar>((pre @ [h]) @ hs) ! pivot_from best bv (Suc i) hs\<bar>)"
      using Cons.prems False by (intro Cons.IH) (auto simp: nth_append)
    then show ?thesis using False by simp
  qed
qed

lemma pivot_row_max:
  assumes "hs \<noteq> []"
  shows "pivot_row hs < length hs \<and> (\<forall>h \<in> set hs. \<bar>h\<bar> \<le> \<bar>hs ! pivot_row hs\<bar>)"
proof -
  obtain h rest where hs: "hs = h # rest" using assms by (cases hs) auto
  show ?thesis
    using pivot_from_max [of "[h]" 1 0 "\<bar>h\<bar>" rest] by (simp add: hs pivot_row_def)
qed


lemma rest_rows:
  assumes "p < length rows"
  shows "set rows = insert (rows ! p) (set (tl (rows[p := hd rows])))"
    and "length (tl (rows[p := hd rows])) = length rows - 1"
proof -
  obtain r0 rs where rows: "rows = r0 # rs" using assms by (cases rows) auto
  show "length (tl (rows[p := hd rows])) = length rows - 1" by simp
  show "set rows = insert (rows ! p) (set (tl (rows[p := hd rows])))"
  proof (cases p)
    case 0
    then show ?thesis by (simp add: rows)
  next
    case (Suc q)
    then have q: "q < length rs" using assms rows by simp
    have "set (rs[q := r0]) \<union> {rs ! q} = insert r0 (set rs)"
    proof -
      have "rs = take q rs @ rs ! q # drop (Suc q) rs" using q by (simp add: id_take_nth_drop)
      moreover have "rs[q := r0] = take q rs @ r0 # drop (Suc q) rs" using q by (simp add: upd_conv_take_nth_drop)
      ultimately have "set rs = set (take q rs) \<union> {rs ! q} \<union> set (drop (Suc q) rs)"
        and "set (rs[q := r0]) = set (take q rs) \<union> {r0} \<union> set (drop (Suc q) rs)"
        by (metis Un_insert_right append_Nil2 list.simps(15) set_append sup_assoc Un_empty_right insert_is_Un Un_commute)+
      then show ?thesis by blast
    qed
    then show ?thesis using Suc by (auto simp: rows)
  qed
qed


lemma dot_hd_tl:
  "cs \<noteq> [] \<Longrightarrow> dot cs (x # xs) = hd cs * x + dot (tl cs) xs"
  by (cases cs) auto

lemma gauss_step:
  assumes "well_formed (Suc n) rows"
  shows "pivot_row (map (\<lambda>r. hd (fst r)) rows) < length rows"
    and "set rows = insert (rows ! pivot_row (map (\<lambda>r. hd (fst r)) rows))
           (set (tl (rows[pivot_row (map (\<lambda>r. hd (fst r)) rows) := hd rows])))"
    and "well_formed n (map (eliminate (rows ! pivot_row (map (\<lambda>r. hd (fst r)) rows)))
           (tl (rows[pivot_row (map (\<lambda>r. hd (fst r)) rows) := hd rows])))"
    and "\<forall>r \<in> set rows. \<bar>hd (fst r)\<bar> \<le> \<bar>hd (fst (rows ! pivot_row (map (\<lambda>r. hd (fst r)) rows)))\<bar>"
    and "length (fst (rows ! pivot_row (map (\<lambda>r. hd (fst r)) rows))) = Suc n"
proof -
  define p where "p = pivot_row (map (\<lambda>r. hd (fst r)) rows)"
  have len: "length rows = Suc n" and rl: "\<And>r. r \<in> set rows \<Longrightarrow> length (fst r) = Suc n"
    using assms by (auto simp: well_formed_def)
  have ne: "map (\<lambda>r. hd (fst r)) rows \<noteq> []" using len by auto
  have p: "p < length rows"
    using pivot_row_max [OF ne] by (simp add: p_def)
  have "\<forall>h \<in> set (map (\<lambda>r. hd (fst r)) rows). \<bar>h\<bar> \<le> \<bar>map (\<lambda>r. hd (fst r)) rows ! p\<bar>"
    unfolding p_def using pivot_row_max [OF ne] by blast
  then have mx: "\<forall>r \<in> set rows. \<bar>hd (fst r)\<bar> \<le> \<bar>hd (fst (rows ! p))\<bar>"
    by (simp add: nth_map [OF p])
  have set_rows: "set rows = insert (rows ! p) (set (tl (rows[p := hd rows])))"
    using p by (rule rest_rows(1))
  have piv_len: "length (fst (rows ! p)) = Suc n" using p rl by simp
  have "length (tl (rows[p := hd rows])) = n" using rest_rows(2) [OF p] len by simp
  moreover have "\<And>r. r \<in> set (tl (rows[p := hd rows])) \<Longrightarrow> length (fst (eliminate (rows ! p) r)) = n"
  proof -
    fix r assume "r \<in> set (tl (rows[p := hd rows]))"
    then have "r \<in> set rows" using set_rows by blast
    then have "length (fst r) = Suc n" by (rule rl)
    then show "length (fst (eliminate (rows ! p) r)) = n"
      using piv_len by (simp add: eliminate_def Let_def)
  qed
  ultimately have wf': "well_formed n (map (eliminate (rows ! p)) (tl (rows[p := hd rows])))"
    by (auto simp: well_formed_def)
  show "pivot_row (map (\<lambda>r. hd (fst r)) rows) < length rows" using p by (simp add: p_def)
  show "set rows = insert (rows ! pivot_row (map (\<lambda>r. hd (fst r)) rows))
           (set (tl (rows[pivot_row (map (\<lambda>r. hd (fst r)) rows) := hd rows])))"
    using set_rows by (simp add: p_def)
  show "well_formed n (map (eliminate (rows ! pivot_row (map (\<lambda>r. hd (fst r)) rows)))
           (tl (rows[pivot_row (map (\<lambda>r. hd (fst r)) rows) := hd rows])))"
    using wf' by (simp add: p_def)
  show "\<forall>r \<in> set rows. \<bar>hd (fst r)\<bar> \<le> \<bar>hd (fst (rows ! pivot_row (map (\<lambda>r. hd (fst r)) rows)))\<bar>"
    using mx by (simp add: p_def)
  show "length (fst (rows ! pivot_row (map (\<lambda>r. hd (fst r)) rows))) = Suc n"
    using piv_len by (simp add: p_def)
qed

text \<open>The eliminated equation, in terms of the two original ones.\<close>

lemma eliminate_dot:
  assumes "length (fst r) = Suc n" "length (fst piv) = Suc n" "length xs = n" "hd (fst piv) \<noteq> 0"
  shows "dot (fst (eliminate piv r)) xs - snd (eliminate piv r)
       = (dot (fst r) (x0 # xs) - snd r)
         - hd (fst r) / hd (fst piv) * (dot (fst piv) (x0 # xs) - snd piv)"
proof -
  have r: "fst r \<noteq> []" and pv: "fst piv \<noteq> []" using assms by auto
  have l1: "length (tl (fst r)) = length (tl (fst piv))"
    and l2: "length (tl (fst piv)) = length xs" using assms by simp_all
  have "dot (fst (eliminate piv r)) xs
      = dot (tl (fst r)) xs - hd (fst r) / hd (fst piv) * dot (tl (fst piv)) xs"
    unfolding eliminate_def Let_def fst_conv by (rule dot_eliminate [OF l1 l2])
  then show ?thesis
    using assms(4) by (simp add: dot_hd_tl [OF r] dot_hd_tl [OF pv] eliminate_def Let_def algebra_simps)
qed

lemma gauss_sound:
  "well_formed n rows \<Longrightarrow> gauss n rows = Some x \<Longrightarrow>
     length x = n \<and> (\<forall>r \<in> set rows. dot (fst r) x = snd r)"
proof (induction n arbitrary: rows x)
  case 0
  then show ?case by (auto simp: well_formed_def)
next
  case (Suc n)
  define piv where "piv = rows ! pivot_row (map (\<lambda>r. hd (fst r)) rows)"
  define rest where "rest = tl (rows[pivot_row (map (\<lambda>r. hd (fst r)) rows) := hd rows])"
  note st = gauss_step [OF Suc.prems(1), folded piv_def rest_def]
  have rl: "\<And>r. r \<in> set rows \<Longrightarrow> length (fst r) = Suc n"
    using Suc.prems(1) by (auto simp: well_formed_def)
  from Suc.prems(2) have a: "hd (fst piv) \<noteq> 0"
    by (auto simp: Let_def piv_def split: if_splits)
  from Suc.prems(2) a obtain xs where xs: "gauss n (map (eliminate piv) rest) = Some xs"
    and x: "x = (snd piv - dot (tl (fst piv)) xs) / hd (fst piv) # xs"
    by (auto simp: Let_def piv_def rest_def split: option.splits)
  have IH: "length xs = n" "\<forall>r \<in> set rest. dot (fst (eliminate piv r)) xs = snd (eliminate piv r)"
    using Suc.IH [OF st(3) xs] by auto
  have pv: "fst piv \<noteq> []" using st(5) by auto
  have piv_eq: "dot (fst piv) x = snd piv"
    using a by (simp add: x dot_hd_tl [OF pv])
  have "\<And>r. r \<in> set rest \<Longrightarrow> dot (fst r) x = snd r"
  proof -
    fix r assume r: "r \<in> set rest"
    then have "r \<in> set rows" using st(2) by blast
    then have lr: "length (fst r) = Suc n" by (rule rl)
    have "dot (fst (eliminate piv r)) xs - snd (eliminate piv r) = 0" using IH(2) r by simp
    then have "dot (fst r) x - snd r = 0"
      using eliminate_dot [OF lr st(5) IH(1) a, of "(snd piv - dot (tl (fst piv)) xs) / hd (fst piv)"] piv_eq
      by (simp add: x)
    then show "dot (fst r) x = snd r" by simp
  qed
  then have "\<forall>r \<in> set rows. dot (fst r) x = snd r"
    using piv_eq st(2) by auto
  then show ?case using IH(1) by (simp add: x)
qed

lemma gauss_unique:
  "well_formed n rows \<Longrightarrow> gauss n rows = Some x \<Longrightarrow> length y = n \<Longrightarrow>
     \<forall>r \<in> set rows. dot (fst r) y = snd r \<Longrightarrow> y = x"
proof (induction n arbitrary: rows x y)
  case 0
  then show ?case by auto
next
  case (Suc n)
  define piv where "piv = rows ! pivot_row (map (\<lambda>r. hd (fst r)) rows)"
  define rest where "rest = tl (rows[pivot_row (map (\<lambda>r. hd (fst r)) rows) := hd rows])"
  note st = gauss_step [OF Suc.prems(1), folded piv_def rest_def]
  have rl: "\<And>r. r \<in> set rows \<Longrightarrow> length (fst r) = Suc n"
    using Suc.prems(1) by (auto simp: well_formed_def)
  from Suc.prems(2) have a: "hd (fst piv) \<noteq> 0"
    by (auto simp: Let_def piv_def split: if_splits)
  from Suc.prems(2) a obtain xs where xs: "gauss n (map (eliminate piv) rest) = Some xs"
    and x: "x = (snd piv - dot (tl (fst piv)) xs) / hd (fst piv) # xs"
    by (auto simp: Let_def piv_def rest_def split: option.splits)
  obtain y0 ys where y: "y = y0 # ys" and ly: "length ys = n"
    using Suc.prems(3) by (cases y) auto
  have pv: "fst piv \<noteq> []" using st(5) by auto
  have piv_in: "piv \<in> set rows" using st(2) by blast
  have piv_y: "dot (fst piv) (y0 # ys) = snd piv" using Suc.prems(4) piv_in y by simp
  have "\<forall>r \<in> set (map (eliminate piv) rest). dot (fst r) ys = snd r"
  proof
    fix e assume "e \<in> set (map (eliminate piv) rest)"
    then obtain r where r: "r \<in> set rest" and e: "e = eliminate piv r" by auto
    then have rin: "r \<in> set rows" using st(2) by blast
    then have lr: "length (fst r) = Suc n" by (rule rl)
    have "dot (fst r) (y0 # ys) = snd r" using Suc.prems(4) rin y by simp
    then have "dot (fst (eliminate piv r)) ys - snd (eliminate piv r) = 0"
      using eliminate_dot [OF lr st(5) ly a, of y0] piv_y by simp
    then show "dot (fst e) ys = snd e" by (simp add: e)
  qed
  then have "ys = xs" using Suc.IH [OF st(3) xs ly] by simp
  moreover have "y0 = (snd piv - dot (tl (fst piv)) ys) / hd (fst piv)"
    using piv_y a by (simp add: dot_hd_tl [OF pv] field_simps)
  ultimately show ?case by (simp add: x y)
qed

lemma gauss_None:
  "well_formed n rows \<Longrightarrow> gauss n rows = None \<Longrightarrow>
     \<exists>y. length y = n \<and> y \<noteq> replicate n 0 \<and> (\<forall>r \<in> set rows. dot (fst r) y = 0)"
proof (induction n arbitrary: rows)
  case 0
  then show ?case by simp
next
  case (Suc n)
  define piv where "piv = rows ! pivot_row (map (\<lambda>r. hd (fst r)) rows)"
  define rest where "rest = tl (rows[pivot_row (map (\<lambda>r. hd (fst r)) rows) := hd rows])"
  note st = gauss_step [OF Suc.prems(1), folded piv_def rest_def]
  have rl: "\<And>r. r \<in> set rows \<Longrightarrow> length (fst r) = Suc n"
    using Suc.prems(1) by (auto simp: well_formed_def)
  show ?case
  proof (cases "hd (fst piv) = 0")
    case True
    have "\<And>r. r \<in> set rows \<Longrightarrow> dot (fst r) (1 # replicate n 0) = 0"
    proof -
      fix r assume r: "r \<in> set rows"
      then have "hd (fst r) = 0" using st(4) True by auto
      moreover have "fst r \<noteq> []" using rl [OF r] by auto
      ultimately show "dot (fst r) (1 # replicate n 0) = 0" by (simp add: dot_hd_tl)
    qed
    then show ?thesis by (intro exI [of _ "1 # replicate n 0"]) auto
  next
    case False
    with Suc.prems(2) have "gauss n (map (eliminate piv) rest) = None"
      by (auto simp: Let_def piv_def rest_def split: option.splits)
    from Suc.IH [OF st(3) this] obtain ys where ys: "length ys = n" "ys \<noteq> replicate n 0"
      "\<forall>r \<in> set rest. dot (fst (eliminate piv r)) ys = 0" by auto
    define y0 where "y0 = - dot (tl (fst piv)) ys / hd (fst piv)"
    have pv: "fst piv \<noteq> []" using st(5) by auto
    have piv_y: "dot (fst piv) (y0 # ys) = 0"
      using False by (simp add: dot_hd_tl [OF pv] y0_def)
    have "\<And>r. r \<in> set rest \<Longrightarrow> dot (fst r) (y0 # ys) = 0"
    proof -
      fix r assume r: "r \<in> set rest"
      then have "r \<in> set rows" using st(2) by blast
      then have lr: "length (fst r) = Suc n" by (rule rl)
      have "dot (fst (eliminate (fst piv, 0) (fst r, 0))) ys - snd (eliminate (fst piv, 0) (fst r, 0))
           = (dot (fst (fst r, 0 :: real)) (y0 # ys) - snd (fst r, 0 :: real))
             - hd (fst (fst r, 0 :: real)) / hd (fst (fst piv, 0 :: real))
               * (dot (fst (fst piv, 0 :: real)) (y0 # ys) - snd (fst piv, 0 :: real))"
        using lr st(5) ys(1) False by (intro eliminate_dot) auto
      moreover have "fst (eliminate (fst piv, 0) (fst r, 0)) = fst (eliminate piv r)"
        by (simp add: eliminate_def Let_def)
      moreover have "snd (eliminate (fst piv, 0) (fst r, 0)) = 0"
        by (simp add: eliminate_def Let_def)
      ultimately show "dot (fst r) (y0 # ys) = 0" using ys(3) r piv_y by simp
    qed
    then have "\<forall>r \<in> set rows. dot (fst r) (y0 # ys) = 0" using piv_y st(2) by auto
    then show ?thesis using ys by (intro exI [of _ "y0 # ys"]) auto
  qed
qed

subsection \<open>The assembled system is square; a singular system is refused\<close>

lemma and_then_Inr:
  "and_then r f = Inr y \<longleftrightarrow> (\<exists>v. r = Inr v \<and> f v = Inr y)"
  by (cases r) (auto simp: and_then_def)

lemma shape_nth: "shape n G \<longleftrightarrow> length G = n \<and> (\<forall>a<n. length (G ! a) = n)"
  by (auto simp: shape_def all_set_conv_all_nth)

lemma shape_update:
  assumes "shape n G"
  shows "shape n (G[i := (G ! i)[j := v]])"
  using assms by (cases "i < length G") (auto simp: shape_nth nth_list_update)

lemma update_entry:
  assumes "shape n G" "i < n" "j < n" "a < n" "b < n"
  shows "G[i := (G ! i)[j := v]] ! a ! b = (if a = i \<and> b = j then v else G ! a ! b)"
  using assms by (auto simp: shape_nth nth_list_update)

lemma mat_add_shape: "shape n G \<Longrightarrow> mat_add G i j v = Inr G' \<Longrightarrow> shape n G'"
  by (auto simp: mat_add_def shape_update split: if_splits)

lemma mat_sub_shape: "shape n G \<Longrightarrow> mat_sub G i j v = Inr G' \<Longrightarrow> shape n G'"
  by (auto simp: mat_sub_def shape_update split: if_splits)

lemma mat_set_shape: "shape n G \<Longrightarrow> mat_set G i j v = Inr G' \<Longrightarrow> shape n G'"
  by (auto simp: mat_set_def shape_update split: if_splits)

lemma vec_set_length: "vec_set Z i v = Inr Z' \<Longrightarrow> length Z' = length Z"
  by (auto simp: vec_set_def split: if_splits)

lemma vec_add_length: "vec_add Z i v = Inr Z' \<Longrightarrow> length Z' = length Z"
  by (auto simp: vec_add_def split: if_splits)

lemma vec_sub_length: "vec_sub Z i v = Inr Z' \<Longrightarrow> length Z' = length Z"
  by (auto simp: vec_sub_def split: if_splits)

lemma stamp_resistor_shape:
  "shape n G \<Longrightarrow> stamp_resistor s R G = Inr G' \<Longrightarrow> shape n G'"
  apply (auto simp: stamp_resistor_def Let_def and_then_Inr split: if_splits
      dest: mat_add_shape mat_sub_shape)
  apply (metis mat_add_shape mat_sub_shape)
  done

lemma stamp_conductances_shape:
  "shape n G \<Longrightarrow> stamp_conductances s rs G = Inr G' \<Longrightarrow> shape n G'"
  by (induction rs arbitrary: G) (auto simp: and_then_Inr dest: stamp_resistor_shape)

lemma stamp_current_source_length:
  "stamp_current_source s C Z = Inr Z' \<Longrightarrow> length Z' = length Z"
  by (auto simp: stamp_current_source_def Let_def and_then_Inr split: if_splits
      dest!: vec_add_length vec_sub_length)

lemma stamp_current_sources_length:
  "stamp_current_sources s cs Z = Inr Z' \<Longrightarrow> length Z' = length Z"
  by (induction cs arbitrary: Z) (auto simp: and_then_Inr dest!: stamp_current_source_length)

lemma stamp_voltage_source_shape:
  assumes "shape n G" "stamp_voltage_source s k V (G, Z) = Inr (G', Z')"
  shows "shape n G' \<and> length Z' = length Z"
proof -
  from assms(2) obtain G1 G2 G3 where
    g1: "(if node1 V \<noteq> ref_node s then and_then (node_to_index s (node1 V)) (\<lambda>i. mat_set G (num_nodes s + k) i 1) else Inr G) = Inr G1"
    and g2: "(if node2 V \<noteq> ref_node s then and_then (node_to_index s (node2 V)) (\<lambda>j. mat_set G1 (num_nodes s + k) j (- 1)) else Inr G1) = Inr G2"
    and z: "vec_set Z (num_nodes s + k) (comp_value V) = Inr Z'"
    and g3: "(if node1 V \<noteq> ref_node s then and_then (node_to_index s (node1 V)) (\<lambda>i. mat_set G2 i (num_nodes s + k) 1) else Inr G2) = Inr G3"
    and g4: "(if node2 V \<noteq> ref_node s then and_then (node_to_index s (node2 V)) (\<lambda>j. mat_set G3 j (num_nodes s + k) (- 1)) else Inr G3) = Inr G'"
    by (auto simp: stamp_voltage_source_def Let_def and_then_Inr)
  have s1: "shape n G1" using assms(1) g1 by (auto simp: and_then_Inr split: if_splits dest: mat_set_shape)
  have s2: "shape n G2" using s1 g2 by (auto simp: and_then_Inr split: if_splits dest: mat_set_shape)
  have s3: "shape n G3" using s2 g3 by (auto simp: and_then_Inr split: if_splits dest: mat_set_shape)
  have s4: "shape n G'" using s3 g4 by (auto simp: and_then_Inr split: if_splits dest: mat_set_shape)
  show ?thesis using s4 z by (simp add: vec_set_length)
qed

lemma stamp_voltage_sources_shape:
  "shape n (fst GZ) \<Longrightarrow> stamp_voltage_sources s k vs GZ = Inr GZ' \<Longrightarrow>
     shape n (fst GZ') \<and> length (snd GZ') = length (snd GZ)"
proof (induction vs arbitrary: k GZ)
  case Nil
  then show ?case by simp
next
  case (Cons V vs)
  from Cons.prems(2) obtain GZ1 where
    1: "stamp_voltage_source s k V GZ = Inr GZ1" and 2: "stamp_voltage_sources s (Suc k) vs GZ1 = Inr GZ'"
    by (auto simp: and_then_Inr)
  have "shape n (fst GZ1) \<and> length (snd GZ1) = length (snd GZ)"
    using stamp_voltage_source_shape [of n "fst GZ" s k V "snd GZ" "fst GZ1" "snd GZ1"] Cons.prems(1) 1
    by simp
  then show ?case using Cons.IH [OF _ 2] by simp
qed

lemma shape_zeros2: "shape n (zeros2 n n)"
  by (simp add: shape_def zeros2_def)

lemma build_mna_system_shape:
  assumes "build_mna_system s = Inr (G, Z)"
  shows "shape (num_nodes s + num_vs s) G \<and> length Z = num_nodes s + num_vs s"
proof -
  from assms obtain G1 Z1 where
    1: "stamp_conductances s (resistors s) (zeros2 (num_nodes s + num_vs s) (num_nodes s + num_vs s)) = Inr G1"
    and 2: "stamp_current_sources s (current_sources s) (zeros (num_nodes s + num_vs s)) = Inr Z1"
    and 3: "stamp_voltage_sources s 0 (voltage_sources s) (G1, Z1) = Inr (G, Z)"
    by (auto simp: build_mna_system_def Let_def and_then_Inr)
  have "shape (num_nodes s + num_vs s) G1" using shape_zeros2 1 by (rule stamp_conductances_shape)
  moreover have "length Z1 = num_nodes s + num_vs s"
    using stamp_current_sources_length [OF 2] by (simp add: zeros_def)
  ultimately show ?thesis using stamp_voltage_sources_shape [OF _ 3] by simp
qed

lemma singular_gauss_None:
  assumes "well_formed n rows"
    and "length y = n" "y \<noteq> replicate n 0" "\<forall>r \<in> set rows. dot (fst r) y = 0"
  shows "gauss n rows = None"
proof (rule ccontr)
  assume "gauss n rows \<noteq> None"
  then obtain x where x: "gauss n rows = Some x" by auto
  from gauss_sound [OF assms(1) x] have lx: "length x = n"
    and sol: "\<forall>r \<in> set rows. dot (fst r) x = snd r" by auto
  have "\<forall>r \<in> set rows. dot (fst r) (map2 (+) x y) = snd r"
  proof
    fix r assume r: "r \<in> set rows"
    then have "length (fst r) = n" using assms(1) by (auto simp: well_formed_def)
    then have "dot (fst r) (map2 (+) x y) = dot (fst r) x + dot (fst r) y"
      using lx assms(2) by (intro dot_add) auto
    then show "dot (fst r) (map2 (+) x y) = snd r" using sol assms(4) r by simp
  qed
  moreover have "length (map2 (+) x y) = n" using lx assms(2) by simp
  ultimately have eq: "map2 (+) x y = x" using gauss_unique [OF assms(1) x] by blast
  have "y = replicate n 0"
  proof (rule nth_equalityI)
    show "length y = length (replicate n (0 :: real))" using assms(2) by simp
    fix i assume i: "i < length y"
    then have "map2 (+) x y ! i = x ! i + y ! i" using lx assms(2) by simp
    then have "y ! i = 0" using eq by simp
    then show "y ! i = replicate n 0 ! i" using i assms(2) by simp
  qed
  then show False using assms(3) by simp
qed

lemma linalg_solve_singular:
  assumes "shape n G" "length Z = n" "singular G"
  shows "linalg_solve G Z = Inl LinAlgError"
proof -
  have len: "length G = n" and rows: "\<forall>row \<in> set G. length row = n"
    using assms(1) by (auto simp: shape_def)
  from assms(3) obtain y where y: "length y = n" "y \<noteq> replicate n 0"
    "\<forall>row \<in> set G. dot row y = 0"
    using len by (auto simp: singular_def list_all_iff)
  have wf: "well_formed n (zip G Z)"
    using len rows assms(2) by (auto simp: well_formed_def dest!: set_zip_leftD)
  have "\<forall>r \<in> set (zip G Z). dot (fst r) y = 0"
    using y(3) by (auto dest!: set_zip_leftD)
  then have "gauss n (zip G Z) = None" using wf y(1,2) by (intro singular_gauss_None)
  then show ?thesis using len rows assms(2) by (simp add: linalg_solve_def list_all_iff)
qed

lemma solve_singular:
  assumes "build_mna_system s = Inr (G, Z)" "singular G"
  shows "solve s = Failed ''Singular matrix: Circuit may be unsolvable. Singular matrix''
                     ''Check circuit connectivity and component values''"
proof -
  have "linalg_solve G Z = Inl LinAlgError"
    using build_mna_system_shape [OF assms(1)] assms(2) by (intro linalg_solve_singular) auto
  then show ?thesis
    by (simp add: solve_def assms(1) on_exception_def create_error_response_def)
qed

subsection \<open>Two voltage sources in parallel\<close>

lemmas solver_defs =
  circuit_solver_def build_mna_system_def stamp_resistor_def stamp_current_source_def
  stamp_voltage_source_def node_to_index_def mat_set_def mat_add_def mat_sub_def
  vec_set_def vec_add_def vec_sub_def zeros_def zeros2_def and_then_def


lemma two_vs_system:
  "build_mna_system (circuit_solver (make_circuit
       [comp 0 VoltageSource 5 1 0, comp 1 VoltageSource 6 1 0] 0))
     = Inr ([[0, 1, 1], [1, 0, 0], [1, 0, 0]], [0, 5, 6])"
  by (simp add: model_defs solver_defs Let_def)

lemma two_vs_solve:
  "solve (circuit_solver (make_circuit
       [comp 0 VoltageSource 5 1 0, comp 1 VoltageSource 6 1 0] 0))
     = Failed ''Singular matrix: Circuit may be unsolvable. Singular matrix''
              ''Check circuit connectivity and component values''"
  unfolding solve_def two_vs_system
  by (simp add: linalg_solve_def numeral_3_eq_3 pivot_row_def eliminate_def
      on_exception_def create_error_response_def dot_def Let_def)

lemma two_vs_singular: "singular [[0, 1, 1], [1, 0, 0], [1, 0, 0]]"
  unfolding singular_def by (rule exI [of _ "[0, 1, - 1]"]) (simp add: dot_def)

subsection \<open>The assembly performs the stamps\<close>

lemma index_of_Some: "index_of xs n = Some i \<Longrightarrow> i < length xs \<and> xs ! i = n"
  by (induction xs arbitrary: i) (auto split: if_splits)

lemma index_of_mem: "n \<in> set xs \<Longrightarrow> \<exists>i. index_of xs n = Some i"
  by (induction xs) auto

lemma index_of_None: "n \<notin> set xs \<Longrightarrow> index_of xs n = None"
  by (induction xs) auto

lemma index_of_inj: "index_of xs a = Some i \<Longrightarrow> index_of xs b = Some i \<Longrightarrow> a = b"
  using index_of_Some by blast

lemma solver_fields [simp]:
  "ref_node (circuit_solver m) = reference_node m"
  "non_ref_nodes (circuit_solver m) = get_non_reference_nodes m"
  "num_nodes (circuit_solver m) = spec_N m"
  "num_vs (circuit_solver m) = spec_M m"
  "resistors (circuit_solver m) = of_class Resistor m"
  "voltage_sources (circuit_solver m) = of_class VoltageSource m"
  "current_sources (circuit_solver m) = of_class CurrentSource m"
  "model (circuit_solver m) = m"
  by (simp_all add: circuit_solver_def get_non_reference_nodes_def spec_N_def spec_M_def)

lemma node_to_index_spec:
  "node_to_index (circuit_solver m) t =
     (case spec_index m t of None \<Rightarrow> Inl KeyError | Some i \<Rightarrow> Inr i)"
  by (simp add: node_to_index_def spec_index_def)

lemma spec_index_reference: "spec_index m (reference_node m) = None"
  by (simp add: spec_index_def get_non_reference_nodes_def index_of_None)

lemma spec_index_less: "spec_index m t = Some i \<Longrightarrow> i < spec_N m"
  using index_of_Some by (auto simp: spec_index_def spec_N_def)

lemma terminal_ok_node:
  assumes "t \<in> set (nodes m)"
  shows "terminal_ok m t"
proof (cases "t = reference_node m")
  case True
  then show ?thesis by (simp add: terminal_ok_def spec_index_reference)
next
  case False
  then have "t \<in> set (get_non_reference_nodes m)"
    using assms by (simp add: get_non_reference_nodes_def)
  then obtain i where "spec_index m t = Some i"
    using index_of_mem by (auto simp: spec_index_def)
  then show ?thesis using False spec_index_less by (auto simp: terminal_ok_def)
qed

lemma terminals_ok:
  "model_ok m \<Longrightarrow> c \<in> set (components m) \<Longrightarrow>
     terminal_ok m (node1 c) \<and> terminal_ok m (node2 c)"
  by (auto simp: model_ok_def terminals_in_nodes_def intro: terminal_ok_node)

lemma entries_update:
  assumes "entries n G f" "i < n" "j < n"
  shows "entries n (G[i := (G ! i)[j := v]]) (\<lambda>a b. if a = i \<and> b = j then v else f a b)"
  using assms by (auto simp: entries_def shape_update update_entry)

lemma entries_cong: "entries n G f \<Longrightarrow> (\<And>a b. a < n \<Longrightarrow> b < n \<Longrightarrow> f a b = f' a b) \<Longrightarrow> entries n G f'"
  by (simp add: entries_def)

lemma entries_in_range:
  "entries n G f \<Longrightarrow> i < n \<Longrightarrow> j < n \<Longrightarrow> i < length G \<and> j < length (G ! i) \<and> G ! i ! j = f i j"
  by (auto simp: entries_def shape_nth)

lemma mat_add_entries:
  assumes "entries n G f" "i < n" "j < n"
  shows "\<exists>G'. mat_add G i j v = Inr G' \<and> entries n G' (\<lambda>a b. f a b + entry i j v a b)"
proof -
  have "entries n (G[i := (G ! i)[j := G ! i ! j + v]]) (\<lambda>a b. f a b + entry i j v a b)"
    using entries_update [OF assms, of "G ! i ! j + v"] entries_in_range [OF assms]
    by (auto simp: entry_def elim!: entries_cong)
  then show ?thesis using entries_in_range [OF assms] by (simp add: mat_add_def)
qed

lemma mat_sub_entries:
  assumes "entries n G f" "i < n" "j < n"
  shows "\<exists>G'. mat_sub G i j v = Inr G' \<and> entries n G' (\<lambda>a b. f a b - entry i j v a b)"
proof -
  have "entries n (G[i := (G ! i)[j := G ! i ! j - v]]) (\<lambda>a b. f a b - entry i j v a b)"
    using entries_update [OF assms, of "G ! i ! j - v"] entries_in_range [OF assms]
    by (auto simp: entry_def elim!: entries_cong)
  then show ?thesis using entries_in_range [OF assms] by (simp add: mat_sub_def)
qed

lemma mat_set_entries:
  assumes "entries n G f" "i < n" "j < n"
  shows "\<exists>G'. mat_set G i j v = Inr G' \<and> entries n G' (\<lambda>a b. if a = i \<and> b = j then v else f a b)"
  using entries_update [OF assms, of v] entries_in_range [OF assms] by (simp add: mat_set_def)


lemma stamp_resistor_entries:
  assumes G: "entries n G f" and n: "spec_N m \<le> n"
    and t1: "terminal_ok m (node1 R)" and t2: "terminal_ok m (node2 R)"
    and v: "comp_value R \<noteq> 0"
  shows "\<exists>G'. stamp_resistor (circuit_solver m) R G = Inr G'
              \<and> entries n G' (\<lambda>a b. f a b + resistor_stamp m R a b)"
proof -
  define g where "g = 1 / comp_value R"
  consider
      (both) i j where "node1 R \<noteq> reference_node m" "node2 R \<noteq> reference_node m"
        "spec_index m (node1 R) = Some i" "spec_index m (node2 R) = Some j" "i < n" "j < n"
    | (first) i where "node1 R \<noteq> reference_node m" "node2 R = reference_node m"
        "spec_index m (node1 R) = Some i" "spec_index m (node2 R) = None" "i < n"
    | (second) j where "node1 R = reference_node m" "node2 R \<noteq> reference_node m"
        "spec_index m (node1 R) = None" "spec_index m (node2 R) = Some j" "j < n"
    | (neither) "node1 R = reference_node m" "node2 R = reference_node m"
        "spec_index m (node1 R) = None" "spec_index m (node2 R) = None"
    using t1 t2 n unfolding terminal_ok_def by fastforce
  then show ?thesis
  proof cases
    case both
    from mat_add_entries [OF G both(5) both(5), of g] obtain G1 where
      1: "mat_add G i i g = Inr G1" "entries n G1 (\<lambda>a b. f a b + entry i i g a b)" by blast
    from mat_add_entries [OF 1(2) both(6) both(6), of g] obtain G2 where
      2: "mat_add G1 j j g = Inr G2"
         "entries n G2 (\<lambda>a b. f a b + entry i i g a b + entry j j g a b)" by blast
    from mat_sub_entries [OF 2(2) both(5) both(6), of g] obtain G3 where
      3: "mat_sub G2 i j g = Inr G3"
         "entries n G3 (\<lambda>a b. f a b + entry i i g a b + entry j j g a b - entry i j g a b)" by blast
    from mat_sub_entries [OF 3(2) both(6) both(5), of g] obtain G4 where
      4: "mat_sub G3 j i g = Inr G4"
         "entries n G4 (\<lambda>a b. f a b + entry i i g a b + entry j j g a b - entry i j g a b
                                - entry j i g a b)" by blast
    have "stamp_resistor (circuit_solver m) R G = Inr G4"
      using both v 1(1) 2(1) 3(1) 4(1)
      by (simp add: stamp_resistor_def node_to_index_spec and_then_def g_def)
    moreover have "entries n G4 (\<lambda>a b. f a b + resistor_stamp m R a b)"
      using 4(2) by (rule entries_cong) (simp add: resistor_stamp_def both g_def)
    ultimately show ?thesis by blast
  next
    case first
    from mat_add_entries [OF G first(5) first(5), of g] obtain G1 where
      1: "mat_add G i i g = Inr G1" "entries n G1 (\<lambda>a b. f a b + entry i i g a b)" by blast
    have "stamp_resistor (circuit_solver m) R G = Inr G1"
      using first v 1(1) by (simp add: stamp_resistor_def node_to_index_spec and_then_def g_def)
    moreover have "entries n G1 (\<lambda>a b. f a b + resistor_stamp m R a b)"
      using 1(2) by (rule entries_cong) (simp add: resistor_stamp_def first g_def spec_index_reference)
    ultimately show ?thesis by blast
  next
    case second
    from mat_add_entries [OF G second(5) second(5), of g] obtain G1 where
      1: "mat_add G j j g = Inr G1" "entries n G1 (\<lambda>a b. f a b + entry j j g a b)" by blast
    have "stamp_resistor (circuit_solver m) R G = Inr G1"
      using second v 1(1) by (simp add: stamp_resistor_def node_to_index_spec and_then_def g_def)
    moreover have "entries n G1 (\<lambda>a b. f a b + resistor_stamp m R a b)"
      using 1(2) by (rule entries_cong) (simp add: resistor_stamp_def second g_def spec_index_reference)
    ultimately show ?thesis by blast
  next
    case neither
    have "stamp_resistor (circuit_solver m) R G = Inr G"
      using neither v by (simp add: stamp_resistor_def)
    moreover have "entries n G (\<lambda>a b. f a b + resistor_stamp m R a b)"
      using G by (rule entries_cong) (simp add: resistor_stamp_def neither spec_index_reference)
    ultimately show ?thesis by blast
  qed
qed

lemma stamp_conductances_entries:
  assumes "entries n G f" "spec_N m \<le> n"
    and "\<forall>R \<in> set rs. terminal_ok m (node1 R) \<and> terminal_ok m (node2 R) \<and> comp_value R \<noteq> 0"
  shows "\<exists>G'. stamp_conductances (circuit_solver m) rs G = Inr G'
              \<and> entries n G' (\<lambda>a b. f a b + sum_list (map (\<lambda>R. resistor_stamp m R a b) rs))"
  using assms
proof (induction rs arbitrary: G f)
  case Nil
  then show ?case by simp
next
  case (Cons R rs)
  from stamp_resistor_entries [OF Cons.prems(1,2), of R] Cons.prems(3) obtain G1 where
    1: "stamp_resistor (circuit_solver m) R G = Inr G1"
       "entries n G1 (\<lambda>a b. f a b + resistor_stamp m R a b)" by auto
  from Cons.IH [OF 1(2) Cons.prems(2)] Cons.prems(3) obtain G' where
    2: "stamp_conductances (circuit_solver m) rs G1 = Inr G'"
       "entries n G' (\<lambda>a b. f a b + resistor_stamp m R a b
                          + sum_list (map (\<lambda>R. resistor_stamp m R a b) rs))" by auto
  have "entries n G' (\<lambda>a b. f a b + sum_list (map (\<lambda>R. resistor_stamp m R a b) (R # rs)))"
    using 2(2) by (rule entries_cong) simp
  then show ?case using 1(1) 2(1) by (simp add: and_then_def)
qed

lemma ventries_cong: "ventries n Z g \<Longrightarrow> (\<And>a. a < n \<Longrightarrow> g a = g' a) \<Longrightarrow> ventries n Z g'"
  by (simp add: ventries_def)

lemma vec_add_ventries:
  assumes "ventries n Z g" "i < n"
  shows "\<exists>Z'. vec_add Z i v = Inr Z' \<and> ventries n Z' (\<lambda>a. g a + (if a = i then v else 0))"
  using assms by (auto simp: vec_add_def ventries_def nth_list_update)

lemma vec_sub_ventries:
  assumes "ventries n Z g" "i < n"
  shows "\<exists>Z'. vec_sub Z i v = Inr Z' \<and> ventries n Z' (\<lambda>a. g a - (if a = i then v else 0))"
  using assms by (auto simp: vec_sub_def ventries_def nth_list_update)

lemma vec_set_ventries:
  assumes "ventries n Z g" "i < n"
  shows "\<exists>Z'. vec_set Z i v = Inr Z' \<and> ventries n Z' (\<lambda>a. if a = i then v else g a)"
  using assms by (auto simp: vec_set_def ventries_def nth_list_update)

lemma stamp_current_source_ventries:
  assumes Z: "ventries n Z g" and n: "spec_N m \<le> n"
    and t1: "terminal_ok m (node1 C)" and t2: "terminal_ok m (node2 C)"
  shows "\<exists>Z'. stamp_current_source (circuit_solver m) C Z = Inr Z'
              \<and> ventries n Z' (\<lambda>a. g a + current_source_stamp m C a)"
proof -
  have 1: "\<exists>Z1. (if node1 C \<noteq> reference_node m
                 then and_then (node_to_index (circuit_solver m) (node1 C)) (\<lambda>i. vec_sub Z i (comp_value C))
                 else Inr Z) = Inr Z1
            \<and> ventries n Z1 (\<lambda>a. g a + (case spec_index m (node1 C) of
                   Some i \<Rightarrow> (if a = i then - comp_value C else 0) | None \<Rightarrow> 0))"
  proof (cases "node1 C = reference_node m")
    case True
    then show ?thesis using Z by (simp add: spec_index_reference)
  next
    case False
    then obtain i where i: "spec_index m (node1 C) = Some i" "i < n"
      using t1 n by (auto simp: terminal_ok_def)
    from vec_sub_ventries [OF Z i(2), of "comp_value C"] obtain Z1 where
      "vec_sub Z i (comp_value C) = Inr Z1"
      "ventries n Z1 (\<lambda>a. g a - (if a = i then comp_value C else 0))" by blast
    then show ?thesis using False i
      by (auto simp: node_to_index_spec and_then_def elim!: ventries_cong)
  qed
  then obtain Z1 where Z1: "(if node1 C \<noteq> reference_node m
                 then and_then (node_to_index (circuit_solver m) (node1 C)) (\<lambda>i. vec_sub Z i (comp_value C))
                 else Inr Z) = Inr Z1"
     "ventries n Z1 (\<lambda>a. g a + (case spec_index m (node1 C) of
                   Some i \<Rightarrow> (if a = i then - comp_value C else 0) | None \<Rightarrow> 0))" by blast
  have 2: "\<exists>Z2. (if node2 C \<noteq> reference_node m
                 then and_then (node_to_index (circuit_solver m) (node2 C)) (\<lambda>j. vec_add Z1 j (comp_value C))
                 else Inr Z1) = Inr Z2
            \<and> ventries n Z2 (\<lambda>a. g a + current_source_stamp m C a)"
  proof (cases "node2 C = reference_node m")
    case True
    then show ?thesis using Z1(2)
      by (auto simp: spec_index_reference current_source_stamp_def elim!: ventries_cong)
  next
    case False
    then obtain j where j: "spec_index m (node2 C) = Some j" "j < n"
      using t2 n by (auto simp: terminal_ok_def)
    from vec_add_ventries [OF Z1(2) j(2), of "comp_value C"] obtain Z2 where
      "vec_add Z1 j (comp_value C) = Inr Z2"
      "ventries n Z2 (\<lambda>a. g a + (case spec_index m (node1 C) of
                   Some i \<Rightarrow> (if a = i then - comp_value C else 0) | None \<Rightarrow> 0)
                 + (if a = j then comp_value C else 0))" by blast
    then show ?thesis using False j
      by (auto simp: node_to_index_spec and_then_def current_source_stamp_def elim!: ventries_cong)
  qed
  then show ?thesis using Z1(1)
    by (auto simp: stamp_current_source_def Let_def and_then_def)
qed

lemma stamp_current_sources_ventries:
  assumes "ventries n Z g" "spec_N m \<le> n"
    and "\<forall>C \<in> set cs. terminal_ok m (node1 C) \<and> terminal_ok m (node2 C)"
  shows "\<exists>Z'. stamp_current_sources (circuit_solver m) cs Z = Inr Z'
              \<and> ventries n Z' (\<lambda>a. g a + sum_list (map (\<lambda>C. current_source_stamp m C a) cs))"
  using assms
proof (induction cs arbitrary: Z g)
  case Nil
  then show ?case by simp
next
  case (Cons C cs)
  from stamp_current_source_ventries [OF Cons.prems(1,2), of C] Cons.prems(3) obtain Z1 where
    1: "stamp_current_source (circuit_solver m) C Z = Inr Z1"
       "ventries n Z1 (\<lambda>a. g a + current_source_stamp m C a)" by auto
  from Cons.IH [OF 1(2) Cons.prems(2)] Cons.prems(3) obtain Z' where
    2: "stamp_current_sources (circuit_solver m) cs Z1 = Inr Z'"
       "ventries n Z' (\<lambda>a. g a + current_source_stamp m C a
                          + sum_list (map (\<lambda>C. current_source_stamp m C a) cs))" by auto
  have "ventries n Z' (\<lambda>a. g a + sum_list (map (\<lambda>C. current_source_stamp m C a) (C # cs)))"
    using 2(2) by (rule ventries_cong) simp
  then show ?case using 1(1) 2(1) by (simp add: and_then_def)
qed

lemma stamp_voltage_source_entries:
  assumes G: "entries n G f" and Z: "ventries n Z g" and r: "spec_N m + k < n"
    and t1: "terminal_ok m (node1 V)" and t2: "terminal_ok m (node2 V)"
    and loop: "node1 V = node2 V \<longrightarrow> node1 V = reference_node m"
    and zero: "\<And>a b. a < n \<Longrightarrow> b < n \<Longrightarrow> a = spec_N m + k \<or> b = spec_N m + k \<Longrightarrow> f a b = 0"
  shows "\<exists>G' Z'. stamp_voltage_source (circuit_solver m) k V (G, Z) = Inr (G', Z')
           \<and> entries n G' (\<lambda>a b. f a b + voltage_source_stamp m k V a b)
           \<and> ventries n Z' (\<lambda>a. if a = spec_N m + k then comp_value V else g a)"
proof -
  define row where "row = spec_N m + k"
  from vec_set_ventries [OF Z r, of "comp_value V"] obtain Z1 where
    Z1: "vec_set Z row (comp_value V) = Inr Z1"
        "ventries n Z1 (\<lambda>a. if a = row then comp_value V else g a)"
    unfolding row_def by blast
  have rn: "row < n" using r by (simp add: row_def)
  consider
      (both) i j where "node1 V \<noteq> reference_node m" "node2 V \<noteq> reference_node m"
        "spec_index m (node1 V) = Some i" "spec_index m (node2 V) = Some j"
        "i < spec_N m" "j < spec_N m" "i \<noteq> j"
    | (first) i where "node1 V \<noteq> reference_node m" "node2 V = reference_node m"
        "spec_index m (node1 V) = Some i" "spec_index m (node2 V) = None" "i < spec_N m"
    | (second) j where "node1 V = reference_node m" "node2 V \<noteq> reference_node m"
        "spec_index m (node1 V) = None" "spec_index m (node2 V) = Some j" "j < spec_N m"
    | (neither) "node1 V = reference_node m" "node2 V = reference_node m"
        "spec_index m (node1 V) = None" "spec_index m (node2 V) = None"
  proof -
    have "node1 V \<noteq> reference_node m \<Longrightarrow> node2 V \<noteq> reference_node m \<Longrightarrow>
          spec_index m (node1 V) = Some i \<Longrightarrow> spec_index m (node2 V) = Some j \<Longrightarrow> i \<noteq> j" for i j
      using loop index_of_inj [of "get_non_reference_nodes m" "node1 V" i "node2 V"]
      by (auto simp: spec_index_def)
    then show ?thesis
      using t1 t2 that unfolding terminal_ok_def by (metis (full_types))
  qed
  then show ?thesis
  proof cases
    case both
    have i: "i < n" and j: "j < n" and ir: "i \<noteq> row" and jr: "j \<noteq> row"
      using both(5,6) r by (simp_all add: row_def)
    from mat_set_entries [OF G rn i, of 1] obtain G1 where
      1: "mat_set G row i 1 = Inr G1"
         "entries n G1 (\<lambda>a b. if a = row \<and> b = i then 1 else f a b)" by blast
    from mat_set_entries [OF 1(2) rn j, of "- 1"] obtain G2 where
      2: "mat_set G1 row j (- 1) = Inr G2"
         "entries n G2 (\<lambda>a b. if a = row \<and> b = j then - 1 else if a = row \<and> b = i then 1 else f a b)"
      by blast
    from mat_set_entries [OF 2(2) i rn, of 1] obtain G3 where
      3: "mat_set G2 i row 1 = Inr G3"
         "entries n G3 (\<lambda>a b. if a = i \<and> b = row then 1 else if a = row \<and> b = j then - 1
                               else if a = row \<and> b = i then 1 else f a b)"
      by blast
    from mat_set_entries [OF 3(2) j rn, of "- 1"] obtain G4 where
      4: "mat_set G3 j row (- 1) = Inr G4"
         "entries n G4 (\<lambda>a b. if a = j \<and> b = row then - 1 else if a = i \<and> b = row then 1
                               else if a = row \<and> b = j then - 1
                               else if a = row \<and> b = i then 1 else f a b)"
      by blast
    have "stamp_voltage_source (circuit_solver m) k V (G, Z) = Inr (G4, Z1)"
      using both 1(1) 2(1) 3(1) 4(1) Z1(1)
      by (simp add: stamp_voltage_source_def node_to_index_spec and_then_def Let_def row_def)
    moreover have "entries n G4 (\<lambda>a b. f a b + voltage_source_stamp m k V a b)"
      using 4(2)
    proof (rule entries_cong)
      fix a b assume "a < n" "b < n"
      then show "(if a = j \<and> b = row then - 1 else if a = i \<and> b = row then 1
                  else if a = row \<and> b = j then - 1
                  else if a = row \<and> b = i then 1 else f a b)
               = f a b + voltage_source_stamp m k V a b"
        using zero [of a b] both(7) ir jr
        by (auto simp: voltage_source_stamp_def both(3,4) entry_def row_def)
    qed
    ultimately show ?thesis using Z1(2) by (auto simp: row_def)
  next
    case first
    have i: "i < n" and ir: "i \<noteq> row" using first(5) r by (simp_all add: row_def)
    from mat_set_entries [OF G rn i, of 1] obtain G1 where
      1: "mat_set G row i 1 = Inr G1"
         "entries n G1 (\<lambda>a b. if a = row \<and> b = i then 1 else f a b)" by blast
    from mat_set_entries [OF 1(2) i rn, of 1] obtain G3 where
      3: "mat_set G1 i row 1 = Inr G3"
         "entries n G3 (\<lambda>a b. if a = i \<and> b = row then 1
                               else if a = row \<and> b = i then 1 else f a b)"
      by blast
    have "stamp_voltage_source (circuit_solver m) k V (G, Z) = Inr (G3, Z1)"
      using first 1(1) 3(1) Z1(1)
      by (simp add: stamp_voltage_source_def node_to_index_spec and_then_def Let_def row_def)
    moreover have "entries n G3 (\<lambda>a b. f a b + voltage_source_stamp m k V a b)"
      using 3(2)
    proof (rule entries_cong)
      fix a b assume "a < n" "b < n"
      then show "(if a = i \<and> b = row then 1 else if a = row \<and> b = i then 1 else f a b)
               = f a b + voltage_source_stamp m k V a b"
        using zero [of a b] ir
        by (auto simp: voltage_source_stamp_def first(3,4) entry_def row_def)
    qed
    ultimately show ?thesis using Z1(2) by (auto simp: row_def)
  next
    case second
    have j: "j < n" and jr: "j \<noteq> row" using second(5) r by (simp_all add: row_def)
    from mat_set_entries [OF G rn j, of "- 1"] obtain G2 where
      2: "mat_set G row j (- 1) = Inr G2"
         "entries n G2 (\<lambda>a b. if a = row \<and> b = j then - 1 else f a b)"
      by blast
    from mat_set_entries [OF 2(2) j rn, of "- 1"] obtain G4 where
      4: "mat_set G2 j row (- 1) = Inr G4"
         "entries n G4 (\<lambda>a b. if a = j \<and> b = row then - 1
                               else if a = row \<and> b = j then - 1 else f a b)"
      by blast
    have "stamp_voltage_source (circuit_solver m) k V (G, Z) = Inr (G4, Z1)"
      using second 2(1) 4(1) Z1(1)
      by (simp add: stamp_voltage_source_def node_to_index_spec and_then_def Let_def row_def)
    moreover have "entries n G4 (\<lambda>a b. f a b + voltage_source_stamp m k V a b)"
      using 4(2)
    proof (rule entries_cong)
      fix a b assume "a < n" "b < n"
      then show "(if a = j \<and> b = row then - 1 else if a = row \<and> b = j then - 1 else f a b)
               = f a b + voltage_source_stamp m k V a b"
        using zero [of a b] jr
        by (auto simp: voltage_source_stamp_def second(3,4) entry_def row_def)
    qed
    ultimately show ?thesis using Z1(2) by (auto simp: row_def)
  next
    case neither
    have "stamp_voltage_source (circuit_solver m) k V (G, Z) = Inr (G, Z1)"
      using neither Z1(1)
      by (simp add: stamp_voltage_source_def and_then_def Let_def row_def)
    moreover have "entries n G (\<lambda>a b. f a b + voltage_source_stamp m k V a b)"
      using G by (rule entries_cong) (simp add: voltage_source_stamp_def neither(3,4))
    ultimately show ?thesis using Z1(2) by (auto simp: row_def)
  qed
qed

lemma entry_outside:
  "i < N \<Longrightarrow> j < N \<Longrightarrow> N \<le> a \<or> N \<le> b \<Longrightarrow> entry i j v a b = 0"
  by (auto simp: entry_def)

lemma resistor_stamp_outside:
  assumes "spec_N m \<le> a \<or> spec_N m \<le> b"
  shows "resistor_stamp m R a b = 0"
proof (cases "spec_index m (node1 R)")
  case None
  show ?thesis
  proof (cases "spec_index m (node2 R)")
    case n2: None
    then show ?thesis by (simp add: resistor_stamp_def None)
  next
    case (Some j)
    then show ?thesis
      using assms spec_index_less [OF Some] by (simp add: resistor_stamp_def None entry_outside)
  qed
next
  case (Some i)
  note i = spec_index_less [OF Some]
  show ?thesis
  proof (cases "spec_index m (node2 R)")
    case None
    then show ?thesis using assms i by (simp add: resistor_stamp_def Some entry_outside)
  next
    case j: (Some j)
    then show ?thesis
      using assms i spec_index_less [OF j] by (simp add: resistor_stamp_def Some entry_outside)
  qed
qed

lemma current_source_stamp_outside:
  assumes "spec_N m \<le> a"
  shows "current_source_stamp m C a = 0"
proof -
  have "(case spec_index m t of Some i \<Rightarrow> (if a = i then x else 0) | None \<Rightarrow> 0) = (0 :: real)" for t x
    using assms spec_index_less [of m t] by (cases "spec_index m t") auto
  then show ?thesis by (simp add: current_source_stamp_def)
qed

lemma voltage_source_stamp_outside:
  assumes "spec_N m + k < a \<or> spec_N m + k < b"
  shows "voltage_source_stamp m k V a b = 0"
proof -
  have "(case spec_index m t of
           Some i \<Rightarrow> entry (spec_N m + k) i x a b + entry i (spec_N m + k) x a b
         | None \<Rightarrow> 0) = (0 :: real)" for t x
    using assms spec_index_less [of m t] by (cases "spec_index m t") (auto simp: entry_def)
  then show ?thesis by (simp add: voltage_source_stamp_def)
qed

lemma stamp_voltage_sources_entries:
  assumes "entries n G f" "ventries n Z g" "spec_N m + k0 + length vss \<le> n"
    and "\<forall>V \<in> set vss. terminal_ok m (node1 V) \<and> terminal_ok m (node2 V)
            \<and> (node1 V = node2 V \<longrightarrow> node1 V = reference_node m)"
    and "\<And>a b. a < n \<Longrightarrow> b < n \<Longrightarrow> spec_N m + k0 \<le> a \<or> spec_N m + k0 \<le> b \<Longrightarrow> f a b = 0"
    and "\<And>a. a < n \<Longrightarrow> spec_N m + k0 \<le> a \<Longrightarrow> g a = 0"
  shows "\<exists>G' Z'. stamp_voltage_sources (circuit_solver m) k0 vss (G, Z) = Inr (G', Z')
           \<and> entries n G' (\<lambda>a b. f a b
                 + sum_list (map (\<lambda>kV. voltage_source_stamp m (fst kV) (snd kV) a b) (enumerate k0 vss)))
           \<and> ventries n Z' (\<lambda>a. g a
                 + sum_list (map (\<lambda>kV. if a = spec_N m + fst kV then comp_value (snd kV) else 0)
                      (enumerate k0 vss)))"
  using assms
proof (induction vss arbitrary: k0 G Z f g)
  case Nil
  then show ?case by simp
next
  case (Cons V vss)
  have r: "spec_N m + k0 < n" using Cons.prems(3) by simp
  have V: "terminal_ok m (node1 V)" "terminal_ok m (node2 V)"
    "node1 V = node2 V \<longrightarrow> node1 V = reference_node m" using Cons.prems(4) by auto
  have z0: "\<And>a b. a < n \<Longrightarrow> b < n \<Longrightarrow> a = spec_N m + k0 \<or> b = spec_N m + k0 \<Longrightarrow> f a b = 0"
    using Cons.prems(5) by auto
  from stamp_voltage_source_entries [OF Cons.prems(1,2) r V z0] obtain G1 Z1 where
    1: "stamp_voltage_source (circuit_solver m) k0 V (G, Z) = Inr (G1, Z1)"
       "entries n G1 (\<lambda>a b. f a b + voltage_source_stamp m k0 V a b)"
       "ventries n Z1 (\<lambda>a. if a = spec_N m + k0 then comp_value V else g a)" by blast
  have Z1': "ventries n Z1 (\<lambda>a. g a + (if a = spec_N m + k0 then comp_value V else 0))"
    using 1(3) by (rule ventries_cong) (use Cons.prems(6) in auto)
  have "\<exists>G' Z'. stamp_voltage_sources (circuit_solver m) (Suc k0) vss (G1, Z1) = Inr (G', Z')
           \<and> entries n G' (\<lambda>a b. (f a b + voltage_source_stamp m k0 V a b)
                 + sum_list (map (\<lambda>kV. voltage_source_stamp m (fst kV) (snd kV) a b) (enumerate (Suc k0) vss)))
           \<and> ventries n Z' (\<lambda>a. (g a + (if a = spec_N m + k0 then comp_value V else 0))
                 + sum_list (map (\<lambda>kV. if a = spec_N m + fst kV then comp_value (snd kV) else 0)
                      (enumerate (Suc k0) vss)))"
  proof (rule Cons.IH [OF 1(2) Z1'])
    show "spec_N m + Suc k0 + length vss \<le> n" using Cons.prems(3) by simp
    show "\<forall>V \<in> set vss. terminal_ok m (node1 V) \<and> terminal_ok m (node2 V)
            \<and> (node1 V = node2 V \<longrightarrow> node1 V = reference_node m)"
      using Cons.prems(4) by simp
    show "f a b + voltage_source_stamp m k0 V a b = 0"
      if "a < n" "b < n" "spec_N m + Suc k0 \<le> a \<or> spec_N m + Suc k0 \<le> b" for a b
    proof -
      have "f a b = 0" using Cons.prems(5) [of a b] that by auto
      moreover have "voltage_source_stamp m k0 V a b = 0"
        using that(3) by (intro voltage_source_stamp_outside) auto
      ultimately show ?thesis by simp
    qed
    show "g a + (if a = spec_N m + k0 then comp_value V else 0) = 0"
      if "a < n" "spec_N m + Suc k0 \<le> a" for a
      using Cons.prems(6) [of a] that by auto
  qed
  then obtain G' Z' where
    2: "stamp_voltage_sources (circuit_solver m) (Suc k0) vss (G1, Z1) = Inr (G', Z')"
       "entries n G' (\<lambda>a b. (f a b + voltage_source_stamp m k0 V a b)
                 + sum_list (map (\<lambda>kV. voltage_source_stamp m (fst kV) (snd kV) a b) (enumerate (Suc k0) vss)))"
       "ventries n Z' (\<lambda>a. (g a + (if a = spec_N m + k0 then comp_value V else 0))
                 + sum_list (map (\<lambda>kV. if a = spec_N m + fst kV then comp_value (snd kV) else 0)
                      (enumerate (Suc k0) vss)))" by blast
  have "entries n G' (\<lambda>a b. f a b
          + sum_list (map (\<lambda>kV. voltage_source_stamp m (fst kV) (snd kV) a b) (enumerate k0 (V # vss))))"
    using 2(2) by (rule entries_cong) simp
  moreover have "ventries n Z' (\<lambda>a. g a
          + sum_list (map (\<lambda>kV. if a = spec_N m + fst kV then comp_value (snd kV) else 0)
               (enumerate k0 (V # vss))))"
    using 2(3) by (rule ventries_cong) simp
  ultimately show ?case using 1(1) 2(1) by (simp add: and_then_def)
qed

lemma entries_eq:
  assumes "entries n G f"
  shows "G = map (\<lambda>a. map (\<lambda>b. f a b) [0..<n]) [0..<n]"
proof (rule nth_equalityI)
  show "length G = length (map (\<lambda>a. map (\<lambda>b. f a b) [0..<n]) [0..<n])"
    using assms by (simp add: entries_def shape_def)
  fix a assume "a < length G"
  then have a: "a < n" using assms by (simp add: entries_def shape_def)
  have "G ! a = map (\<lambda>b. f a b) [0..<n]"
  proof (rule nth_equalityI)
    show "length (G ! a) = length (map (\<lambda>b. f a b) [0..<n])"
      using assms a by (simp add: entries_def shape_nth)
    fix b assume "b < length (G ! a)"
    then have "b < n" using assms a by (simp add: entries_def shape_nth)
    then show "G ! a ! b = map (\<lambda>b. f a b) [0..<n] ! b"
      using assms a by (simp add: entries_def)
  qed
  then show "G ! a = map (\<lambda>a. map (\<lambda>b. f a b) [0..<n]) [0..<n] ! a" using a by simp
qed

lemma ventries_eq:
  assumes "ventries n Z g"
  shows "Z = map g [0..<n]"
  using assms by (intro nth_equalityI) (auto simp: ventries_def)

lemma entries_zeros2: "entries n (zeros2 n n) (\<lambda>a b. 0)"
  by (simp add: entries_def shape_zeros2) (simp add: zeros2_def)

lemma ventries_zeros: "ventries n (zeros n) (\<lambda>a. 0)"
  by (simp add: ventries_def zeros_def)

lemma build_mna_system_spec:
  assumes ok: "model_ok m"
    and res: "\<forall>R \<in> set (of_class Resistor m). comp_value R \<noteq> 0"
    and vs: "\<forall>V \<in> set (of_class VoltageSource m). node1 V = node2 V \<longrightarrow> node1 V = reference_node m"
  shows "build_mna_system (circuit_solver m) = Inr (spec_matrix m, spec_vector m)"
proof -
  define n where "n = spec_N m + spec_M m"
  have tok: "\<And>k c. c \<in> set (of_class k m) \<Longrightarrow> terminal_ok m (node1 c) \<and> terminal_ok m (node2 c)"
    using terminals_ok [OF ok] by (auto simp: of_class_def)
  from stamp_conductances_entries [OF entries_zeros2 [of n], of m "of_class Resistor m"]
  obtain G1 where
    1: "stamp_conductances (circuit_solver m) (of_class Resistor m) (zeros2 n n) = Inr G1"
       "entries n G1 (\<lambda>a b. 0 + sum_list (map (\<lambda>R. resistor_stamp m R a b) (of_class Resistor m)))"
    using tok res by (auto simp: n_def)
  from stamp_current_sources_ventries [OF ventries_zeros [of n], of m "of_class CurrentSource m"]
  obtain Z1 where
    2: "stamp_current_sources (circuit_solver m) (of_class CurrentSource m) (zeros n) = Inr Z1"
       "ventries n Z1 (\<lambda>a. 0 + sum_list (map (\<lambda>C. current_source_stamp m C a) (of_class CurrentSource m)))"
    using tok by (auto simp: n_def)
  have "\<exists>G' Z'. stamp_voltage_sources (circuit_solver m) 0 (of_class VoltageSource m) (G1, Z1) = Inr (G', Z')
           \<and> entries n G' (\<lambda>a b. (0 + sum_list (map (\<lambda>R. resistor_stamp m R a b) (of_class Resistor m)))
                 + sum_list (map (\<lambda>kV. voltage_source_stamp m (fst kV) (snd kV) a b)
                     (enumerate 0 (of_class VoltageSource m))))
           \<and> ventries n Z' (\<lambda>a. (0 + sum_list (map (\<lambda>C. current_source_stamp m C a) (of_class CurrentSource m)))
                 + sum_list (map (\<lambda>kV. if a = spec_N m + fst kV then comp_value (snd kV) else 0)
                      (enumerate 0 (of_class VoltageSource m))))"
  proof (rule stamp_voltage_sources_entries [OF 1(2) 2(2)])
    show "spec_N m + 0 + length (of_class VoltageSource m) \<le> n" by (simp add: n_def spec_M_def)
    show "\<forall>V \<in> set (of_class VoltageSource m). terminal_ok m (node1 V) \<and> terminal_ok m (node2 V)
            \<and> (node1 V = node2 V \<longrightarrow> node1 V = reference_node m)"
      using tok vs by blast
    show "0 + sum_list (map (\<lambda>R. resistor_stamp m R a b) (of_class Resistor m)) = 0"
      if "spec_N m + 0 \<le> a \<or> spec_N m + 0 \<le> b" for a b
      using that by (simp add: resistor_stamp_outside)
    show "0 + sum_list (map (\<lambda>C. current_source_stamp m C a) (of_class CurrentSource m)) = 0"
      if "spec_N m + 0 \<le> a" for a
      using that by (simp add: current_source_stamp_outside)
  qed
  then obtain G' Z' where
    3: "stamp_voltage_sources (circuit_solver m) 0 (of_class VoltageSource m) (G1, Z1) = Inr (G', Z')"
       "entries n G' (spec_G m)" "ventries n Z' (spec_Z m)"
    by (auto simp: spec_G_def [abs_def] spec_Z_def [abs_def])
  have "G' = spec_matrix m" using entries_eq [OF 3(2)] by (simp add: spec_matrix_def n_def)
  moreover have "Z' = spec_vector m" using ventries_eq [OF 3(3)] by (simp add: spec_vector_def n_def)
  ultimately show ?thesis
    using 1(1) 2(1) 3(1) by (simp add: build_mna_system_def Let_def and_then_def n_def)
qed

lemma reference_make_circuit [simp]: "reference_node (make_circuit cs r) = r"
  by (simp add: make_circuit_def mark_reference_def)

lemmas spec_defs =
  spec_matrix_def spec_vector_def spec_G_def spec_Z_def spec_N_def spec_M_def spec_index_def
  resistor_stamp_def current_source_stamp_def voltage_source_stamp_def entry_def

lemma shorted_source_solve:
  "\<exists>sol. solve (circuit_solver (make_circuit [comp 0 VoltageSource 5 1 1] 0)) = Solved sol
     \<and> voltages sol = [(0, 0), (1, - 5)]"
proof -
  have b: "build_mna_system (circuit_solver (make_circuit [comp 0 VoltageSource 5 1 1] 0))
         = Inr ([[0, - 1], [- 1, 0]], [0, 5])"
    by (simp add: model_defs solver_defs Let_def)
  have l: "linalg_solve [[0, - 1], [- 1, 0]] [0, 5] = Inr [- 5, 0]"
    by (simp add: linalg_solve_def numeral_2_eq_2 pivot_row_def eliminate_def dot_def Let_def)
  show ?thesis
    unfolding solve_def b
    by (simp add: l)
       (simp add: package_solution_def model_defs spec_N_def and_then_def
        calculate_component_result_def voltage_at_def)
qed

text \<open>
  C1, where the code departs from it: the circuit of the single source \<open>VS(5, 1, 1)\<close>,
  reference node 0 (it has no resistor). The stamps of the claim put \<open>+1\<close> and \<open>-1\<close>
  at the same entries, which cancel to 0, as the constraint \<open>V_n1 - V_n2 = voltage\<close>
  of the code's own comment does; the code assigns \<open>+1\<close> and then \<open>-1\<close> to the entry,
  which leaves \<open>-1\<close>, so that the row reads \<open>-V_1 = 5\<close> (and \<open>solve\<close> returns
  \<open>-5\<close> for node 1, lemma \<open>shorted_source_solve\<close>).
\<close>

theorem mna_stamps_counterexample:
  "of_class Resistor (make_circuit [comp 0 VoltageSource 5 1 1] 0) = []
   \<and> build_mna_system (circuit_solver (make_circuit [comp 0 VoltageSource 5 1 1] 0))
       = Inr ([[0, - 1], [- 1, 0]], [0, 5])
   \<and> spec_matrix (make_circuit [comp 0 VoltageSource 5 1 1] 0) = [[0, 0], [0, 0]]
   \<and> spec_vector (make_circuit [comp 0 VoltageSource 5 1 1] 0) = [0, 5]
   \<and> build_mna_system (circuit_solver (make_circuit [comp 0 VoltageSource 5 1 1] 0))
       \<noteq> Inr (spec_matrix (make_circuit [comp 0 VoltageSource 5 1 1] 0),
              spec_vector (make_circuit [comp 0 VoltageSource 5 1 1] 0))"
  by (simp add: model_defs solver_defs spec_defs Let_def upt_rec [of _ "numeral k" for k]
      upt_rec [of _ "Suc k" for k])

text \<open>
  C1: for every circuit built from components and a reference node, whose resistor
  values are nonzero and in which no voltage source has both terminals on the same
  non-reference node, the assembled system \<open>(G, Z)\<close> is the zero-initialised system
  of side \<open>N + M\<close> updated by exactly the stamps of the specification: every entry of
  \<open>G\<close> and of \<open>Z\<close> is the sum of what the stamps of the resistors, the current sources
  and the voltage sources contribute there, and \<open>Z[N+k]\<close> is the value of source \<open>k\<close>.
\<close>

theorem mna_system_is_stamped:
  assumes "list_all (\<lambda>R. comp_value R \<noteq> 0) (of_class Resistor (make_circuit cs r))"
    and "list_all (\<lambda>V. node1 V = node2 V \<longrightarrow> node1 V = r)
           (of_class VoltageSource (make_circuit cs r))"
  shows "build_mna_system (circuit_solver (make_circuit cs r))
       = Inr (spec_matrix (make_circuit cs r), spec_vector (make_circuit cs r))"
  using make_circuit_ok assms by (intro build_mna_system_spec) (simp_all add: list_all_iff)

theorem mna_system_is_stamped_witness:
  "list_all (\<lambda>R. comp_value R \<noteq> 0) (of_class Resistor (make_circuit
        [comp 0 VoltageSource 12 1 0, comp 1 Resistor 1000 1 2, comp 2 Resistor 2000 2 0] 0))
   \<and> list_all (\<lambda>V. node1 V = node2 V \<longrightarrow> node1 V = 0) (of_class VoltageSource (make_circuit
        [comp 0 VoltageSource 12 1 0, comp 1 Resistor 1000 1 2, comp 2 Resistor 2000 2 0] 0))
   \<and> build_mna_system (circuit_solver (make_circuit
        [comp 0 VoltageSource 12 1 0, comp 1 Resistor 1000 1 2, comp 2 Resistor 2000 2 0] 0))
     = Inr (spec_matrix (make_circuit
        [comp 0 VoltageSource 12 1 0, comp 1 Resistor 1000 1 2, comp 2 Resistor 2000 2 0] 0),
            spec_vector (make_circuit
        [comp 0 VoltageSource 12 1 0, comp 1 Resistor 1000 1 2, comp 2 Resistor 2000 2 0] 0))"
proof -
  have 1: "list_all (\<lambda>R. comp_value R \<noteq> 0) (of_class Resistor (make_circuit
        [comp 0 VoltageSource 12 1 0, comp 1 Resistor 1000 1 2, comp 2 Resistor 2000 2 0] 0))"
    by (simp add: model_defs)
  have 2: "list_all (\<lambda>V. node1 V = node2 V \<longrightarrow> node1 V = 0) (of_class VoltageSource (make_circuit
        [comp 0 VoltageSource 12 1 0, comp 1 Resistor 1000 1 2, comp 2 Resistor 2000 2 0] 0))"
    by (simp add: model_defs)
  show ?thesis using 1 2 mna_system_is_stamped [OF 1 2] by blast
qed

subsection \<open>Resistors of value zero or below\<close>

lemma neg_system:
  "build_mna_system (circuit_solver (make_circuit
       [comp 0 VoltageSource 10 1 0, comp 1 Resistor (- 100) 1 0] 0))
     = Inr ([[- (1 / 100), 1], [1, 0]], [0, 10])"
  by (simp add: model_defs solver_defs Let_def)

lemma neg_linalg: "linalg_solve [[- (1 / 100), 1], [1, 0]] [0, 10] = Inr [10, 1 / 10]"
  by (simp add: linalg_solve_def numeral_2_eq_2 pivot_row_def eliminate_def dot_def Let_def)

lemma neg_solve:
  "\<exists>sol. solve (circuit_solver (make_circuit
       [comp 0 VoltageSource 10 1 0, comp 1 Resistor (- 100) 1 0] 0)) = Solved sol
     \<and> voltages sol = [(0, 0), (1, 10)] \<and> map res_power (results sol) = [1, - 1]"
  unfolding solve_def neg_system
  by (simp add: neg_linalg)
     (simp add: package_solution_def model_defs spec_N_def and_then_def
      calculate_component_result_def voltage_at_def)

lemma stamp_conductances_zero:
  assumes "entries n G f" "spec_N m \<le> n"
    and "\<forall>R \<in> set rs. terminal_ok m (node1 R) \<and> terminal_ok m (node2 R)"
    and "\<exists>R \<in> set rs. comp_value R = 0"
  shows "stamp_conductances (circuit_solver m) rs G = Inl ZeroDivisionError"
  using assms
proof (induction rs arbitrary: G f)
  case Nil
  then show ?case by simp
next
  case (Cons R rs)
  show ?case
  proof (cases "comp_value R = 0")
    case True
    then show ?thesis by (simp add: stamp_resistor_def and_then_def)
  next
    case False
    from stamp_resistor_entries [OF Cons.prems(1,2), of R] Cons.prems(3) False obtain G1 where
      1: "stamp_resistor (circuit_solver m) R G = Inr G1"
         "entries n G1 (\<lambda>a b. f a b + resistor_stamp m R a b)" by auto
    have "stamp_conductances (circuit_solver m) rs G1 = Inl ZeroDivisionError"
      using Cons.prems(3,4) False by (intro Cons.IH [OF 1(2) Cons.prems(2)]) auto
    then show ?thesis using 1(1) by (simp add: and_then_def)
  qed
qed

lemma solve_zero_resistor:
  assumes "model_ok m" "\<exists>R \<in> set (of_class Resistor m). comp_value R = 0"
  shows "solve (circuit_solver m) = Failed ''Solver error: float division by zero''
                                      ''Check circuit connectivity and component values''"
proof -
  have "\<forall>R \<in> set (of_class Resistor m). terminal_ok m (node1 R) \<and> terminal_ok m (node2 R)"
    using terminals_ok [OF assms(1)] by (auto simp: of_class_def)
  then have "stamp_conductances (circuit_solver m) (of_class Resistor m)
               (zeros2 (spec_N m + spec_M m) (spec_N m + spec_M m)) = Inl ZeroDivisionError"
    using assms(2) by (intro stamp_conductances_zero [OF entries_zeros2]) auto
  then have "build_mna_system (circuit_solver m) = Inl ZeroDivisionError"
    by (simp add: build_mna_system_def Let_def and_then_def)
  then show ?thesis
    by (simp add: solve_def on_exception_def create_error_response_def)
qed

lemma ingest_resistor:
  assumes "component_map (strip (upper t)) = Some Resistor"
  shows "ingest_record str_to_float m i (netlist_record t (PFloat x) (PInt a) (PInt b))
       = Inr (add_component m (comp i Resistor x a b))"
  using assms
  by (simp add: ingest_record_def netlist_record_def checked_value_def new_component_def
      parse_node_def and_then_def comp_def)

lemma neg_ingest:
  "build_circuit_model str_to_float
     (PList [netlist_record ''VS'' (PInt 10) (PInt 1) (PInt 0),
             netlist_record ''R'' (PInt (- 100)) (PInt 1) (PInt 0)])
   = Inr (make_circuit [comp 0 VoltageSource 10 1 0, comp 1 Resistor (- 100) 1 0] 0)"
  by (simp add: ingest_defs string_defs model_defs)

text \<open>
  C8 (as stated): a resistor record whose value is zero or below is rejected at ingest
  with a NonPositiveResistance error, and no numeric solve is attempted on a circuit with
  such a resistor. Counterexample: the netlist \<open>VS(10, 1, 0)\<close>, \<open>R(-100, 1, 0)\<close> is
  ingested without an error, and solving it returns numbers: node 1 at 10 V, and the
  powers 1 W for the source and -1 W for the resistor.
\<close>

theorem nonpositive_resistance_counterexample:
  "build_circuit_model (\<lambda>s. None)
     (PList [netlist_record ''VS'' (PInt 10) (PInt 1) (PInt 0),
             netlist_record ''R'' (PInt (- 100)) (PInt 1) (PInt 0)])
     = Inr (make_circuit [comp 0 VoltageSource 10 1 0, comp 1 Resistor (- 100) 1 0] 0)
   \<and> (\<exists>sol. solve (circuit_solver (make_circuit
           [comp 0 VoltageSource 10 1 0, comp 1 Resistor (- 100) 1 0] 0)) = Solved sol
         \<and> voltages sol = [(0, 0), (1, 10)] \<and> map res_power (results sol) = [1, - 1])"
  using neg_ingest neg_solve by blast

text \<open>
  C8 (amended): ingest does not look at the sign of a resistance. A record of resistor
  kind with any numeric value and integer terminals is accepted and its component is
  added to the circuit. When a circuit holds a resistor of value exactly zero, \<open>solve\<close>
  fails while it assembles the matrix, before any linear solve, and returns the error
  result \<open>Solver error: float division by zero\<close> with the suggestion.
\<close>

theorem resistance_is_not_checked:
  "(component_map (strip (upper t)) = Some Resistor \<longrightarrow>
      ingest_record str_to_float m i (netlist_record t (PFloat x) (PInt a) (PInt b))
        = Inr (add_component m (comp i Resistor x a b)))
   \<and> (list_ex (\<lambda>R. comp_value R = 0) (of_class Resistor (make_circuit cs r)) \<longrightarrow>
        solve (circuit_solver (make_circuit cs r))
          = Failed ''Solver error: float division by zero''
                   ''Check circuit connectivity and component values'')"
  using ingest_resistor solve_zero_resistor [OF make_circuit_ok]
  by (simp add: list_ex_iff)

theorem resistance_is_not_checked_witness:
  "component_map (strip (upper ''r'')) = Some Resistor
   \<and> ingest_record (\<lambda>s. None) new_model 0 (netlist_record ''r'' (PFloat (- 5)) (PInt 1) (PInt 0))
        = Inr (add_component new_model (comp 0 Resistor (- 5) 1 0))
   \<and> list_ex (\<lambda>R. comp_value R = 0) (of_class Resistor (make_circuit
         [comp 0 VoltageSource 10 1 0, comp 1 Resistor 0 1 0] 0))
   \<and> solve (circuit_solver (make_circuit [comp 0 VoltageSource 10 1 0, comp 1 Resistor 0 1 0] 0))
          = Failed ''Solver error: float division by zero''
                   ''Check circuit connectivity and component values''"
proof -
  have 1: "component_map (strip (upper ''r'')) = Some Resistor"
    by code_simp
  have 2: "list_ex (\<lambda>R. comp_value R = 0) (of_class Resistor (make_circuit
         [comp 0 VoltageSource 10 1 0, comp 1 Resistor 0 1 0] 0))"
    by (simp add: model_defs)
  show ?thesis
    using 1 2 resistance_is_not_checked [of "''r''" "\<lambda>s. None" new_model 0 "- 5" 1 0
        "[comp 0 VoltageSource 10 1 0, comp 1 Resistor 0 1 0]" 0]
    by blast
qed

subsection \<open>The matrices parsed back from the equations\<close>

lemma divider_equations:
  "build_equations (new_equation_builder
       (make_circuit [comp 0 VoltageSource 10 1 0, comp 1 Resistor 1000 1 0] 0)
       (find_supernodes (make_circuit [comp 0 VoltageSource 10 1 0, comp 1 Resistor 1000 1 0] 0)))
     = [''V_{1} = 10.0'']"
  by code_simp

lemma divider_system:
  "build_mna_system (circuit_solver
       (make_circuit [comp 0 VoltageSource 10 1 0, comp 1 Resistor 1000 1 0] 0))
     = Inr ([[1 / 1000, 1], [1, 0]], [0, 10])"
  by (simp add: model_defs solver_defs Let_def)

lemma divider_parsed:
  "matrices_from_rendered_equations node_eq supernode_eq str_to_float
       (make_circuit [comp 0 VoltageSource 10 1 0, comp 1 Resistor 1000 1 0] 0)
     = Inl TypeError"
  unfolding matrices_from_rendered_equations_def divider_equations
  by (simp add: build_matrices_from_equations_def process_constraint_equation_def
      call_count_kcl_equations_def and_then_def)

text \<open>
  C10: on every valid circuit the matrices parsed back from the rendered equations are
  built without an error and equal those of the solver. The code at the circuit
  \<open>VS(10, 1, 0)\<close>, \<open>R(1000, 1, 0)\<close>, reference node 0: the only equation is the constraint
  \<open>V_{1} = 10.0\<close>, and \<open>_process_constraint_equation\<close> calls \<open>_count_kcl_equations\<close>
  without its argument, which raises \<open>TypeError\<close>, whatever the two KCL parsers do; the
  solver assembles \<open>G = [[1/1000, 1], [1, 0]]\<close> and \<open>Z = [0, 10]\<close>.
\<close>

theorem rendered_equations_path_raises:
  "build_equations (new_equation_builder
       (make_circuit [comp 0 VoltageSource 10 1 0, comp 1 Resistor 1000 1 0] 0)
       (find_supernodes (make_circuit [comp 0 VoltageSource 10 1 0, comp 1 Resistor 1000 1 0] 0)))
     = [''V_{1} = 10.0'']
   \<and> matrices_from_rendered_equations node_eq supernode_eq str_to_float
       (make_circuit [comp 0 VoltageSource 10 1 0, comp 1 Resistor 1000 1 0] 0)
     = Inl TypeError
   \<and> build_mna_system (circuit_solver
       (make_circuit [comp 0 VoltageSource 10 1 0, comp 1 Resistor 1000 1 0] 0))
     = Inr ([[1 / 1000, 1], [1, 0]], [0, 10])"
  using divider_equations divider_system divider_parsed by blast

subsection \<open>The powers of a solution add up to zero\<close>

lemma sum_entry:
  fixes x :: "nat \<Rightarrow> real"
  shows "(\<Sum>a<N. \<Sum>b<n. x a * entry i j v a b * x b) = (if i < N \<and> j < n then x i * v * x j else 0)"
proof -
  have "(\<Sum>b<n. x a * entry i j v a b * x b) = (if a = i \<and> j < n then x i * v * x j else 0)" for a
  proof -
    have "(\<Sum>b<n. x a * entry i j v a b * x b) = (\<Sum>b<n. if b = j then (if a = i then x a * v * x b else 0) else 0)"
      by (intro sum.cong) (auto simp: entry_def)
    also have "\<dots> = (if j < n then (if a = i then x a * v * x j else 0) else 0)"
      by (simp add: sum.delta)
    finally show ?thesis by auto
  qed
  then have "(\<Sum>a<N. \<Sum>b<n. x a * entry i j v a b * x b)
           = (\<Sum>a<N. if a = i then (if j < n then x i * v * x j else 0) else 0)"
    by (intro sum.cong) auto
  also have "\<dots> = (if i < N then (if j < n then x i * v * x j else 0) else 0)"
    by (simp add: sum.delta)
  finally show ?thesis by auto
qed

lemma sum_resistor_stamp:
  fixes x :: "nat \<Rightarrow> real"
  assumes "spec_N m \<le> n"
  shows "(\<Sum>a<spec_N m. \<Sum>b<n. x a * resistor_stamp m R a b * x b)
       = (node_voltage m x (node1 R) - node_voltage m x (node2 R))
         * ((node_voltage m x (node1 R) - node_voltage m x (node2 R)) / comp_value R)"
proof -
  have e: "(\<Sum>a<spec_N m. \<Sum>b<n. x a * entry i j v a b * x b) = x i * v * x j"
    if "i < spec_N m" "j < spec_N m" for i j v
    using sum_entry [where x = x and N = "spec_N m" and n = n and i = i and j = j and v = v] that assms by simp
  show ?thesis
  proof (cases "spec_index m (node1 R)")
    case None
    show ?thesis
    proof (cases "spec_index m (node2 R)")
      case n2: None
      then show ?thesis by (simp add: resistor_stamp_def None node_voltage_def)
    next
      case (Some j)
      then show ?thesis
        using e [OF spec_index_less [OF Some] spec_index_less [OF Some]]
        by (simp add: resistor_stamp_def None node_voltage_def)
    qed
  next
    case (Some i)
    note i = spec_index_less [OF Some]
    show ?thesis
    proof (cases "spec_index m (node2 R)")
      case None
      then show ?thesis using e [OF i i]
        by (simp add: resistor_stamp_def Some node_voltage_def)
    next
      case j: (Some j)
      note jl = spec_index_less [OF j]
      have "(\<Sum>a<spec_N m. \<Sum>b<n. x a * resistor_stamp m R a b * x b)
          = (\<Sum>a<spec_N m. \<Sum>b<n. x a * entry i i (1 / comp_value R) a b * x b)
            + (\<Sum>a<spec_N m. \<Sum>b<n. x a * entry j j (1 / comp_value R) a b * x b)
            - (\<Sum>a<spec_N m. \<Sum>b<n. x a * entry i j (1 / comp_value R) a b * x b)
            - (\<Sum>a<spec_N m. \<Sum>b<n. x a * entry j i (1 / comp_value R) a b * x b)"
        by (simp add: resistor_stamp_def Some j algebra_simps sum.distrib sum_subtractf)
      then show ?thesis
        using e [OF i i] e [OF jl jl] e [OF i jl] e [OF jl i]
        by (simp add: Some j node_voltage_def algebra_simps diff_divide_distrib add_divide_distrib)
    qed
  qed
qed

lemma sum_voltage_source_stamp:
  fixes x :: "nat \<Rightarrow> real"
  assumes "spec_N m + k < n"
  shows "(\<Sum>a<spec_N m. \<Sum>b<n. x a * voltage_source_stamp m k V a b * x b)
       = (node_voltage m x (node1 V) - node_voltage m x (node2 V)) * x (spec_N m + k)"
proof -
  have half: "(\<Sum>a<spec_N m. \<Sum>b<n. x a * (case spec_index m t of
                 Some i \<Rightarrow> entry (spec_N m + k) i v a b + entry i (spec_N m + k) v a b
               | None \<Rightarrow> 0) * x b)
            = node_voltage m x t * v * x (spec_N m + k)" for t v
  proof (cases "spec_index m t")
    case None
    then show ?thesis by (simp add: node_voltage_def)
  next
    case (Some i)
    have "(\<Sum>a<spec_N m. \<Sum>b<n. x a * (entry (spec_N m + k) i v a b + entry i (spec_N m + k) v a b) * x b)
        = (\<Sum>a<spec_N m. \<Sum>b<n. x a * entry (spec_N m + k) i v a b * x b)
          + (\<Sum>a<spec_N m. \<Sum>b<n. x a * entry i (spec_N m + k) v a b * x b)"
      by (simp add: algebra_simps sum.distrib)
    then show ?thesis
      using spec_index_less [OF Some] assms
      by (simp add: Some node_voltage_def sum_entry)
  qed
  define A where "A = (\<lambda>a b. case spec_index m (node1 V) of
                 Some i \<Rightarrow> entry (spec_N m + k) i 1 a b + entry i (spec_N m + k) 1 a b
               | None \<Rightarrow> (0 :: real))"
  define B where "B = (\<lambda>a b. case spec_index m (node2 V) of
                 Some i \<Rightarrow> entry (spec_N m + k) i (- 1) a b + entry i (spec_N m + k) (- 1) a b
               | None \<Rightarrow> (0 :: real))"
  have "(\<Sum>a<spec_N m. \<Sum>b<n. x a * voltage_source_stamp m k V a b * x b)
      = (\<Sum>a<spec_N m. \<Sum>b<n. x a * A a b * x b + x a * B a b * x b)"
    by (intro sum.cong refl) (simp add: voltage_source_stamp_def A_def B_def algebra_simps)
  also have "\<dots> = (\<Sum>a<spec_N m. \<Sum>b<n. x a * A a b * x b)
                  + (\<Sum>a<spec_N m. \<Sum>b<n. x a * B a b * x b)"
    by (simp add: sum.distrib)
  also have "\<dots> = node_voltage m x (node1 V) * 1 * x (spec_N m + k)
                  + node_voltage m x (node2 V) * (- 1) * x (spec_N m + k)"
    unfolding A_def B_def by (simp only: half)
  also have "\<dots> = (node_voltage m x (node1 V) - node_voltage m x (node2 V)) * x (spec_N m + k)"
    by (simp add: algebra_simps)
  finally show ?thesis .
qed

lemma sum_current_source_stamp:
  fixes x :: "nat \<Rightarrow> real"
  shows "(\<Sum>a<spec_N m. x a * current_source_stamp m C a)
       = - ((node_voltage m x (node1 C) - node_voltage m x (node2 C)) * comp_value C)"
proof -
  have half: "(\<Sum>a<spec_N m. x a * (case spec_index m t of
                 Some i \<Rightarrow> (if a = i then v else 0) | None \<Rightarrow> 0))
            = node_voltage m x t * v" for t v
  proof (cases "spec_index m t")
    case None
    then show ?thesis by (simp add: node_voltage_def)
  next
    case (Some i)
    have "(\<Sum>a<spec_N m. x a * (if a = i then v else 0)) = (\<Sum>a<spec_N m. if a = i then x i * v else 0)"
      by (intro sum.cong) auto
    then show ?thesis
      using spec_index_less [OF Some] by (simp add: Some node_voltage_def sum.delta)
  qed
  define A where "A = (\<lambda>a. case spec_index m (node1 C) of
                 Some i \<Rightarrow> (if a = i then - comp_value C else 0) | None \<Rightarrow> 0)"
  define B where "B = (\<lambda>a. case spec_index m (node2 C) of
                 Some i \<Rightarrow> (if a = i then comp_value C else 0) | None \<Rightarrow> 0)"
  have "(\<Sum>a<spec_N m. x a * current_source_stamp m C a)
      = (\<Sum>a<spec_N m. x a * A a + x a * B a)"
    by (intro sum.cong refl) (simp add: current_source_stamp_def A_def B_def algebra_simps)
  also have "\<dots> = (\<Sum>a<spec_N m. x a * A a) + (\<Sum>a<spec_N m. x a * B a)"
    by (simp add: sum.distrib)
  also have "\<dots> = node_voltage m x (node1 C) * (- comp_value C)
                  + node_voltage m x (node2 C) * comp_value C"
    unfolding A_def B_def by (simp only: half)
  also have "\<dots> = - ((node_voltage m x (node1 C) - node_voltage m x (node2 C)) * comp_value C)"
    by (simp add: algebra_simps)
  finally show ?thesis .
qed

lemma sum_sum_list2:
  fixes x :: "nat \<Rightarrow> real"
  shows "(\<Sum>a\<in>A. \<Sum>b\<in>B. x a * sum_list (map (\<lambda>c. f c a b) cs) * x b)
       = sum_list (map (\<lambda>c. \<Sum>a\<in>A. \<Sum>b\<in>B. x a * f c a b * x b) cs)"
  by (induction cs) (simp_all add: algebra_simps sum.distrib)

lemma sum_sum_list1:
  fixes x :: "nat \<Rightarrow> real"
  shows "(\<Sum>a\<in>A. x a * sum_list (map (\<lambda>c. f c a) cs))
       = sum_list (map (\<lambda>c. \<Sum>a\<in>A. x a * f c a) cs)"
  by (induction cs) (simp_all add: algebra_simps sum.distrib)

lemma in_enumerate_index:
  "kV \<in> set (enumerate k0 xs) \<Longrightarrow> k0 \<le> fst kV \<and> fst kV < k0 + length xs"
  by (auto simp: in_set_enumerate_eq)

text \<open>Tellegen: the node equations, weighted by the node voltages, add up to the powers.\<close>

lemma powers_sum_to_zero:
  fixes x :: "nat \<Rightarrow> real"
  assumes rows: "\<And>a. a < spec_N m \<Longrightarrow> (\<Sum>b<spec_N m + spec_M m. spec_G m a b * x b) = spec_Z m a"
  shows "sum_list (map (\<lambda>R. (node_voltage m x (node1 R) - node_voltage m x (node2 R))
                        * ((node_voltage m x (node1 R) - node_voltage m x (node2 R)) / comp_value R))
                   (of_class Resistor m))
       + sum_list (map (\<lambda>kV. (node_voltage m x (node1 (snd kV)) - node_voltage m x (node2 (snd kV)))
                        * x (spec_N m + fst kV))
                   (enumerate 0 (of_class VoltageSource m)))
       + sum_list (map (\<lambda>C. (node_voltage m x (node1 C) - node_voltage m x (node2 C)) * comp_value C)
                   (of_class CurrentSource m))
       = 0"
proof -
  define N where "N = spec_N m"
  define n where "n = spec_N m + spec_M m"
  have Nn: "spec_N m \<le> n" by (simp add: n_def)
  have "(\<Sum>a<N. x a * ((\<Sum>b<n. spec_G m a b * x b) - spec_Z m a)) = 0"
    using rows by (simp add: N_def n_def)
  moreover have "(\<Sum>a<N. x a * ((\<Sum>b<n. spec_G m a b * x b) - spec_Z m a))
      = (\<Sum>a<N. (\<Sum>b<n. x a * spec_G m a b * x b) - x a * spec_Z m a)"
    by (intro sum.cong refl) (simp add: algebra_simps sum_distrib_left)
  ultimately have eq: "(\<Sum>a<N. \<Sum>b<n. x a * spec_G m a b * x b) = (\<Sum>a<N. x a * spec_Z m a)"
    by (simp add: sum_subtractf)
  have G: "(\<Sum>a<N. \<Sum>b<n. x a * spec_G m a b * x b)
       = sum_list (map (\<lambda>R. \<Sum>a<N. \<Sum>b<n. x a * resistor_stamp m R a b * x b) (of_class Resistor m))
         + sum_list (map (\<lambda>kV. \<Sum>a<N. \<Sum>b<n. x a * voltage_source_stamp m (fst kV) (snd kV) a b * x b)
              (enumerate 0 (of_class VoltageSource m)))"
  proof -
    have "(\<Sum>a<N. \<Sum>b<n. x a * spec_G m a b * x b)
        = (\<Sum>a<N. \<Sum>b<n.
             x a * sum_list (map (\<lambda>R. resistor_stamp m R a b) (of_class Resistor m)) * x b
             + x a * sum_list (map (\<lambda>kV. voltage_source_stamp m (fst kV) (snd kV) a b)
                  (enumerate 0 (of_class VoltageSource m))) * x b)"
      by (intro sum.cong refl) (simp add: spec_G_def algebra_simps)
    also have "\<dots> = (\<Sum>a<N. \<Sum>b<n.
             x a * sum_list (map (\<lambda>R. resistor_stamp m R a b) (of_class Resistor m)) * x b)
           + (\<Sum>a<N. \<Sum>b<n.
               x a * sum_list (map (\<lambda>kV. voltage_source_stamp m (fst kV) (snd kV) a b)
                  (enumerate 0 (of_class VoltageSource m))) * x b)"
      by (simp add: sum.distrib)
    finally show ?thesis by (simp only: sum_sum_list2)
  qed
  have G1: "sum_list (map (\<lambda>R. \<Sum>a<N. \<Sum>b<n. x a * resistor_stamp m R a b * x b) (of_class Resistor m))
       = sum_list (map (\<lambda>R. (node_voltage m x (node1 R) - node_voltage m x (node2 R))
                        * ((node_voltage m x (node1 R) - node_voltage m x (node2 R)) / comp_value R))
                   (of_class Resistor m))"
    using sum_resistor_stamp [OF Nn] by (simp add: N_def)
  have G2: "sum_list (map (\<lambda>kV. \<Sum>a<N. \<Sum>b<n. x a * voltage_source_stamp m (fst kV) (snd kV) a b * x b)
              (enumerate 0 (of_class VoltageSource m)))
       = sum_list (map (\<lambda>kV. (node_voltage m x (node1 (snd kV)) - node_voltage m x (node2 (snd kV)))
                        * x (spec_N m + fst kV))
                   (enumerate 0 (of_class VoltageSource m)))"
  proof (rule arg_cong [where f = sum_list], rule map_cong [OF refl])
    fix kV assume "kV \<in> set (enumerate 0 (of_class VoltageSource m))"
    then have "spec_N m + fst kV < n"
      using in_enumerate_index [of kV 0] by (simp add: n_def spec_M_def)
    then show "(\<Sum>a<N. \<Sum>b<n. x a * voltage_source_stamp m (fst kV) (snd kV) a b * x b)
             = (node_voltage m x (node1 (snd kV)) - node_voltage m x (node2 (snd kV))) * x (spec_N m + fst kV)"
      unfolding N_def by (rule sum_voltage_source_stamp)
  qed
  have Z: "(\<Sum>a<N. x a * spec_Z m a)
       = sum_list (map (\<lambda>C. \<Sum>a<N. x a * current_source_stamp m C a) (of_class CurrentSource m))
         + sum_list (map (\<lambda>kV. \<Sum>a<N. x a * (if a = spec_N m + fst kV then comp_value (snd kV) else 0))
              (enumerate 0 (of_class VoltageSource m)))"
  proof -
    have "(\<Sum>a<N. x a * spec_Z m a)
        = (\<Sum>a<N. x a * sum_list (map (\<lambda>C. current_source_stamp m C a) (of_class CurrentSource m))
             + x a * sum_list (map (\<lambda>kV. if a = spec_N m + fst kV then comp_value (snd kV) else 0)
                  (enumerate 0 (of_class VoltageSource m))))"
      by (intro sum.cong refl) (simp add: spec_Z_def algebra_simps)
    also have "\<dots> = (\<Sum>a<N. x a * sum_list (map (\<lambda>C. current_source_stamp m C a) (of_class CurrentSource m)))
           + (\<Sum>a<N. x a * sum_list (map (\<lambda>kV. if a = spec_N m + fst kV then comp_value (snd kV) else 0)
                  (enumerate 0 (of_class VoltageSource m))))"
      by (simp add: sum.distrib)
    finally show ?thesis by (simp only: sum_sum_list1)
  qed
  have Z1: "sum_list (map (\<lambda>C. \<Sum>a<N. x a * current_source_stamp m C a) (of_class CurrentSource m))
       = - sum_list (map (\<lambda>C. (node_voltage m x (node1 C) - node_voltage m x (node2 C)) * comp_value C)
                   (of_class CurrentSource m))"
  proof -
    have "sum_list (map (\<lambda>c. - f c) cs) = - sum_list (map f cs)" for f :: "component \<Rightarrow> real" and cs
      by (induction cs) simp_all
    then show ?thesis unfolding N_def sum_current_source_stamp by simp
  qed
  have Z2: "sum_list (map (\<lambda>kV. \<Sum>a<N. x a * (if a = spec_N m + fst kV then comp_value (snd kV) else 0))
              (enumerate 0 (of_class VoltageSource m))) = 0"
  proof -
    have "(\<Sum>a<N. x a * (if a = spec_N m + k then v else 0)) = 0" for k v
      by (intro sum.neutral) (auto simp: N_def)
    then show ?thesis by simp
  qed
  show ?thesis using eq by (simp add: G G1 G2 Z Z1 Z2)
qed

lemma index_of_nth: "distinct xs \<Longrightarrow> i < length xs \<Longrightarrow> index_of xs (xs ! i) = Some i"
proof (induction xs arbitrary: i)
  case Nil
  then show ?case by simp
next
  case (Cons x xs)
  then show ?case by (cases i) auto
qed

lemma fill_voltages_map:
  assumes "distinct (non_ref_nodes s)" "i + length vs \<le> length (non_ref_nodes s)"
  shows "\<exists>d'. fill_voltages s i vs d = Inr d'
           \<and> (\<forall>t. map_of d' t =
                 (case index_of (non_ref_nodes s) t of
                    Some j \<Rightarrow> if i \<le> j \<and> j < i + length vs then Some (vs ! (j - i)) else map_of d t
                  | None \<Rightarrow> map_of d t))"
  using assms(2)
proof (induction vs arbitrary: i d)
  case Nil
  then show ?case by (auto split: option.splits)
next
  case (Cons v vs)
  have i: "i < length (non_ref_nodes s)" using Cons.prems by simp
  define d1 where "d1 = AList.update (non_ref_nodes s ! i) v d"
  have "Suc i + length vs \<le> length (non_ref_nodes s)" using Cons.prems by simp
  from Cons.IH [OF this, of d1] obtain d' where
    d': "fill_voltages s (Suc i) vs d1 = Inr d'"
    "\<And>t. map_of d' t =
        (case index_of (non_ref_nodes s) t of
           Some j \<Rightarrow> if Suc i \<le> j \<and> j < Suc i + length vs then Some (vs ! (j - Suc i)) else map_of d1 t
         | None \<Rightarrow> map_of d1 t)" by blast
  have d1: "map_of d1 t = (if t = non_ref_nodes s ! i then Some v else map_of d t)" for t
    by (simp add: d1_def update_conv')
  have "map_of d' t =
        (case index_of (non_ref_nodes s) t of
           Some j \<Rightarrow> if i \<le> j \<and> j < i + length (v # vs) then Some ((v # vs) ! (j - i)) else map_of d t
         | None \<Rightarrow> map_of d t)" for t
  proof (cases "index_of (non_ref_nodes s) t")
    case None
    then have "t \<noteq> non_ref_nodes s ! i"
      using index_of_nth [OF assms(1) i] by auto
    then show ?thesis by (simp add: d'(2) None d1)
  next
    case (Some j)
    have ti: "t = non_ref_nodes s ! i \<longleftrightarrow> j = i"
    proof
      assume "t = non_ref_nodes s ! i"
      then have "index_of (non_ref_nodes s) t = Some i"
        using index_of_nth [OF assms(1) i] by simp
      then show "j = i" using Some by simp
    next
      assume "j = i"
      then show "t = non_ref_nodes s ! i" using index_of_Some [OF Some] by simp
    qed
    have L: "map_of d' t = (if Suc i \<le> j \<and> j < Suc i + length vs
                            then Some (vs ! (j - Suc i)) else map_of d1 t)"
      by (simp only: d'(2) Some option.case)
    have R: "(case index_of (non_ref_nodes s) t of
           Some j \<Rightarrow> if i \<le> j \<and> j < i + length (v # vs) then Some ((v # vs) ! (j - i)) else map_of d t
         | None \<Rightarrow> map_of d t)
         = (if i \<le> j \<and> j < i + length (v # vs) then Some ((v # vs) ! (j - i)) else map_of d t)"
      by (simp only: Some option.case)
    have D: "map_of d1 t = (if j = i then Some v else map_of d t)"
      using ti by (simp only: d1)
    show ?thesis
    proof (cases "j = i")
      case True
      then show ?thesis unfolding L R D by simp
    next
      case False
      have "(v # vs) ! (j - i) = vs ! (j - Suc i)" if "i \<le> j"
      proof -
        have "j - i = Suc (j - Suc i)" using that False by arith
        then show ?thesis by simp
      qed
      then show ?thesis unfolding L R D using False by auto
    qed
  qed
  then show ?case using d'(1) i by (auto simp: d1_def)
qed

lemma find_vs_less: "find_vs xs j i = Some k \<Longrightarrow> j \<le> k \<and> k < j + length xs"
  by (induction xs arbitrary: j) (fastforce split: if_splits)+

lemma find_vs_nth:
  "distinct (map comp_id xs) \<Longrightarrow> k < length xs \<Longrightarrow> find_vs xs j (comp_id (xs ! k)) = Some (j + k)"
proof (induction xs arbitrary: j k)
  case Nil
  then show ?case by simp
next
  case (Cons x xs)
  show ?case
  proof (cases k)
    case 0
    then show ?thesis by simp
  next
    case (Suc k')
    then have "comp_id x \<noteq> comp_id (xs ! k')" using Cons.prems by auto
    then show ?thesis using Cons Suc by simp
  qed
qed

lemma dot_sum:
  "length cs = length xs \<Longrightarrow> dot cs xs = (\<Sum>b<length cs. cs ! b * xs ! b)"
proof (induction cs xs rule: list_induct2)
  case Nil
  then show ?case by simp
next
  case (Cons c cs x xs)
  have "(\<Sum>b<Suc (length cs). (c # cs) ! b * (x # xs) ! b)
      = c * x + (\<Sum>b<length cs. cs ! b * xs ! b)"
    unfolding sum.lessThan_Suc_shift by simp
  then show ?case using Cons by simp
qed

lemma sum_by_class:
  fixes f :: "component \<Rightarrow> real"
  shows "sum_list (map f cs)
       = sum_list (map f (filter (\<lambda>c. comp_class c = Resistor) cs))
         + sum_list (map f (filter (\<lambda>c. comp_class c = VoltageSource) cs))
         + sum_list (map f (filter (\<lambda>c. comp_class c = CurrentSource) cs))"
proof (induction cs)
  case Nil
  then show ?case by simp
next
  case (Cons c cs)
  then show ?case by (cases "comp_class c") simp_all
qed

lemma sum_list_nth_map:
  fixes f :: "'a \<Rightarrow> real"
  shows "sum_list (map f xs) = (\<Sum>k<length xs. f (xs ! k))"
  by (simp add: sum_list_sum_nth atLeast0LessThan)

lemma sum_enumerate:
  fixes g :: "nat \<times> 'a \<Rightarrow> real"
  shows "sum_list (map g (enumerate 0 xs)) = (\<Sum>k<length xs. g (k, xs ! k))"
proof -
  have "sum_list (map g (enumerate 0 xs)) = (\<Sum>k<length (enumerate 0 xs). g (enumerate 0 xs ! k))"
    by (rule sum_list_nth_map)
  then show ?thesis by (simp add: nth_enumerate_eq)
qed

lemma solve_Solved:
  assumes "solve s = Solved sol"
  shows "\<exists>G Z X. build_mna_system s = Inr (G, Z) \<and> linalg_solve G Z = Inr X
           \<and> package_solution s (take (num_nodes s) X) (drop (num_nodes s) X) G Z = Inr sol"
  using assms
  by (auto simp: solve_def on_exception_def create_error_response_def split: sum.splits if_splits)

lemma linalg_solve_rows:
  assumes "linalg_solve G Z = Inr X" "shape n G" "length Z = n"
  shows "length X = n \<and> (\<forall>a<n. (\<Sum>b<n. G ! a ! b * X ! b) = Z ! a)"
proof -
  have len: "length G = n" and rows: "\<forall>row \<in> set G. length row = n"
    using assms(2) by (auto simp: shape_def)
  have g: "gauss n (zip G Z) = Some X"
    using assms(1) len by (auto simp: linalg_solve_def split: if_splits option.splits)
  have wf: "well_formed n (zip G Z)"
    using len rows assms(3) by (auto simp: well_formed_def dest!: set_zip_leftD)
  from gauss_sound [OF wf g] have lx: "length X = n"
    and sol: "\<forall>r \<in> set (zip G Z). dot (fst r) X = snd r" by auto
  have "(\<Sum>b<n. G ! a ! b * X ! b) = Z ! a" if "a < n" for a
  proof -
    have "(G ! a, Z ! a) \<in> set (zip G Z)"
      using that len assms(3) by (auto simp: set_zip)
    then have "dot (G ! a) X = Z ! a" using sol by auto
    moreover have "length (G ! a) = n" using rows that len by simp
    ultimately show ?thesis using dot_sum [of "G ! a" X] lx by simp
  qed
  then show ?thesis using lx by simp
qed

lemma spec_matrix_nth:
  "a < spec_N m + spec_M m \<Longrightarrow> b < spec_N m + spec_M m \<Longrightarrow> spec_matrix m ! a ! b = spec_G m a b"
  by (simp add: spec_matrix_def)

lemma spec_vector_nth:
  "a < spec_N m + spec_M m \<Longrightarrow> spec_vector m ! a = spec_Z m a"
  by (simp add: spec_vector_def)

lemma shape_spec_matrix: "shape (spec_N m + spec_M m) (spec_matrix m)"
  by (auto simp: shape_def spec_matrix_def)

lemma voltages_of_solution:
  assumes "model_ok m" "length X = spec_N m + spec_M m"
  shows "\<exists>d. fill_voltages (circuit_solver m) 0 (take (spec_N m) X) [(reference_node m, 0)] = Inr d
           \<and> (\<forall>t. voltage_at d t = node_voltage m (\<lambda>i. X ! i) t)"
proof -
  have dn: "distinct (non_ref_nodes (circuit_solver m))"
    using assms(1) by (simp add: model_ok_def get_non_reference_nodes_def)
  have ln: "0 + length (take (spec_N m) X) \<le> length (non_ref_nodes (circuit_solver m))"
    using assms(2) by (simp add: spec_N_def)
  from fill_voltages_map [OF dn ln, of "[(reference_node m, 0)]"] obtain d where
    d: "fill_voltages (circuit_solver m) 0 (take (spec_N m) X) [(reference_node m, 0)] = Inr d"
    "\<And>t. map_of d t =
       (case index_of (non_ref_nodes (circuit_solver m)) t of
          Some j \<Rightarrow> if 0 \<le> j \<and> j < 0 + length (take (spec_N m) X)
                    then Some (take (spec_N m) X ! (j - 0))
                    else map_of [(reference_node m, 0)] t
        | None \<Rightarrow> map_of [(reference_node m, 0)] t)" by blast
  have "voltage_at d t = node_voltage m (\<lambda>i. X ! i) t" for t
  proof (cases "spec_index m t")
    case None
    then show ?thesis
      using d(2) [of t] by (simp add: voltage_at_def node_voltage_def spec_index_def)
  next
    case (Some j)
    then have "j < spec_N m" by (rule spec_index_less)
    then show ?thesis
      using d(2) [of t] Some assms(2)
      by (simp add: voltage_at_def node_voltage_def spec_index_def)
  qed
  then show ?thesis using d(1) by blast
qed

lemma component_result_power:
  assumes "calculate_component_result (circuit_solver m) c d (drop (spec_N m) X) = Inr r"
    and "\<And>t. voltage_at d t = node_voltage m (\<lambda>i. X ! i) t"
    and "length X = spec_N m + spec_M m"
  shows "res_power r = component_power m (\<lambda>i. X ! i) c"
proof (cases "comp_class c")
  case Resistor
  then show ?thesis using assms(1)
    by (auto simp: calculate_component_result_def component_power_def assms(2) Let_def
        and_then_def split: if_splits)
next
  case VoltageSource
  show ?thesis
  proof (cases "find_vs (of_class VoltageSource m) 0 (comp_id c)")
    case None
    then show ?thesis using assms(1) VoltageSource
      by (auto simp: calculate_component_result_def component_power_def assms(2) Let_def
          and_then_def)
  next
    case (Some k)
    then have "k < spec_M m" using find_vs_less [OF Some] by (simp add: spec_M_def)
    then have "drop (spec_N m) X ! k = X ! (spec_N m + k)" using assms(3) by simp
    then show ?thesis using assms(1) VoltageSource Some
      by (auto simp: calculate_component_result_def component_power_def assms(2) Let_def
          and_then_def split: if_splits)
  qed
next
  case CurrentSource
  then show ?thesis using assms(1)
    by (auto simp: calculate_component_result_def component_power_def assms(2) Let_def
        and_then_def)
qed

lemma component_results_power:
  assumes "component_results (circuit_solver m) cs d (drop (spec_N m) X) = Inr rs"
    and "\<And>t. voltage_at d t = node_voltage m (\<lambda>i. X ! i) t"
    and "length X = spec_N m + spec_M m"
  shows "map res_power rs = map (component_power m (\<lambda>i. X ! i)) cs"
  using assms(1)
proof (induction cs arbitrary: rs)
  case Nil
  then show ?case by simp
next
  case (Cons c cs)
  from Cons.prems obtain r rs' where
    r: "calculate_component_result (circuit_solver m) c d (drop (spec_N m) X) = Inr r"
    and rs': "component_results (circuit_solver m) cs d (drop (spec_N m) X) = Inr rs'"
    and rs: "rs = r # rs'"
    by (auto simp: and_then_Inr)
  show ?case
    using component_result_power [OF r assms(2,3)] Cons.IH [OF rs'] by (simp add: rs)
qed

lemma total_component_power:
  assumes ok: "model_ok m"
    and rows: "\<And>a. a < spec_N m \<Longrightarrow> (\<Sum>b<spec_N m + spec_M m. spec_G m a b * x b) = spec_Z m a"
  shows "sum_list (map (component_power m x) (components m)) = 0"
proof -
  define vss where "vss = of_class VoltageSource m"
  define dv where "dv = (\<lambda>c :: component. node_voltage m x (node1 c) - node_voltage m x (node2 c))"
  have ids: "distinct (map comp_id vss)"
    using ok by (simp add: model_ok_def vss_def of_class_def distinct_map_filter)
  have R: "sum_list (map (component_power m x) (of_class Resistor m))
         = sum_list (map (\<lambda>R. dv R * (dv R / comp_value R)) (of_class Resistor m))"
    by (rule arg_cong [where f = sum_list], rule map_cong [OF refl])
       (simp add: of_class_def component_power_def dv_def)
  have C: "sum_list (map (component_power m x) (of_class CurrentSource m))
         = sum_list (map (\<lambda>C. dv C * comp_value C) (of_class CurrentSource m))"
    by (rule arg_cong [where f = sum_list], rule map_cong [OF refl])
       (simp add: of_class_def component_power_def dv_def)
  have V: "sum_list (map (component_power m x) vss)
         = sum_list (map (\<lambda>kV. dv (snd kV) * x (spec_N m + fst kV)) (enumerate 0 vss))"
  proof -
    have "sum_list (map (component_power m x) vss) = (\<Sum>k<length vss. component_power m x (vss ! k))"
      by (rule sum_list_nth_map)
    also have "\<dots> = (\<Sum>k<length vss. dv (vss ! k) * x (spec_N m + k))"
    proof (rule sum.cong [OF refl])
      fix k assume "k \<in> {..<length vss}"
      then have k: "k < length vss" by simp
      then have "comp_class (vss ! k) = VoltageSource"
        using nth_mem [OF k] by (simp add: vss_def of_class_def)
      moreover have "find_vs vss 0 (comp_id (vss ! k)) = Some k"
        using find_vs_nth [OF ids k, of 0] by simp
      ultimately show "component_power m x (vss ! k) = dv (vss ! k) * x (spec_N m + k)"
        by (simp add: component_power_def dv_def vss_def [symmetric])
    qed
    also have "\<dots> = sum_list (map (\<lambda>kV. dv (snd kV) * x (spec_N m + fst kV)) (enumerate 0 vss))"
      by (simp add: sum_enumerate)
    finally show ?thesis .
  qed
  have "sum_list (map (component_power m x) (components m))
      = sum_list (map (component_power m x) (of_class Resistor m))
        + sum_list (map (component_power m x) vss)
        + sum_list (map (component_power m x) (of_class CurrentSource m))"
    unfolding vss_def of_class_def by (rule sum_by_class)
  then show ?thesis
    using powers_sum_to_zero [of m x, OF rows]
    by (simp add: R [unfolded dv_def] C [unfolded dv_def] V [unfolded dv_def vss_def] vss_def)
qed

lemma solved_power_zero:
  assumes ok: "model_ok m"
    and vs: "\<forall>V \<in> set (of_class VoltageSource m). node1 V = node2 V \<longrightarrow> node1 V = reference_node m"
    and solved: "solve (circuit_solver m) = Solved sol"
  shows "total_power sol = 0"
proof -
  define n where "n = spec_N m + spec_M m"
  from solve_Solved [OF solved] obtain G Z X where
    build: "build_mna_system (circuit_solver m) = Inr (G, Z)"
    and lin: "linalg_solve G Z = Inr X"
    and pack: "package_solution (circuit_solver m) (take (spec_N m) X) (drop (spec_N m) X) G Z = Inr sol"
    by auto
  have res: "\<forall>R \<in> set (of_class Resistor m). comp_value R \<noteq> 0"
  proof (rule ccontr)
    assume "\<not> ?thesis"
    then have "\<exists>R \<in> set (of_class Resistor m). comp_value R = 0" by simp
    from solve_zero_resistor [OF ok this] solved show False by simp
  qed
  have GZ: "G = spec_matrix m" "Z = spec_vector m"
    using build_mna_system_spec [OF ok res vs] build by simp_all
  have X: "length X = n" and rows: "\<forall>a<n. (\<Sum>b<n. G ! a ! b * X ! b) = Z ! a"
    using linalg_solve_rows [OF lin, of n] shape_spec_matrix [of m]
    by (simp_all add: GZ n_def spec_vector_def)
  have rows': "(\<Sum>b<spec_N m + spec_M m. spec_G m a b * X ! b) = spec_Z m a" if "a < spec_N m" for a
  proof -
    have a: "a < n" using that by (simp add: n_def)
    have "(\<Sum>b<n. G ! a ! b * X ! b) = (\<Sum>b<n. spec_G m a b * X ! b)"
      using a by (intro sum.cong refl) (simp add: GZ n_def spec_matrix_nth)
    then show ?thesis using rows a by (simp add: GZ n_def spec_vector_nth)
  qed
  from voltages_of_solution [OF ok X [unfolded n_def]] obtain d where
    d: "fill_voltages (circuit_solver m) 0 (take (spec_N m) X) [(reference_node m, 0)] = Inr d"
       "\<And>t. voltage_at d t = node_voltage m (\<lambda>i. X ! i) t" by blast
  from pack d(1) obtain rs where
    rs: "component_results (circuit_solver m) (components m) d (drop (spec_N m) X) = Inr rs"
    and tp: "total_power sol = sum_list (map res_power rs)"
    by (auto simp: package_solution_def and_then_Inr)
  have "map res_power rs = map (component_power m (\<lambda>i. X ! i)) (components m)"
    using rs d(2) X [unfolded n_def] by (rule component_results_power)
  then show ?thesis
    using total_component_power [OF ok, of "\<lambda>i. X ! i"] rows' by (simp add: tp)
qed

lemma divider_linalg: "linalg_solve [[1 / 1000, 1], [1, 0]] [0, 10] = Inr [10, - (1 / 100)]"
  by (simp add: linalg_solve_def numeral_2_eq_2 pivot_row_def eliminate_def dot_def Let_def)

lemma divider_solve:
  "\<exists>sol. solve (circuit_solver (make_circuit
       [comp 0 VoltageSource 10 1 0, comp 1 Resistor 1000 1 0] 0)) = Solved sol"
  unfolding solve_def divider_system
  by (simp add: divider_linalg)
     (simp add: package_solution_def model_defs spec_N_def and_then_def
      calculate_component_result_def voltage_at_def)

subsection \<open>The system without the order of the voltage sources\<close>

lemma sum_entry_row:
  fixes x :: "nat \<Rightarrow> real"
  shows "(\<Sum>b<n. entry i j v a b * x b) = (if a = i \<and> j < n then v * x j else 0)"
proof -
  have "(\<Sum>b<n. entry i j v a b * x b) = (\<Sum>b<n. if b = j then (if a = i then v * x j else 0) else 0)"
    by (intro sum.cong) (auto simp: entry_def)
  then show ?thesis by (simp add: sum.delta)
qed

lemma sum_list_row:
  fixes x :: "nat \<Rightarrow> real"
  shows "(\<Sum>b\<in>B. sum_list (map (\<lambda>c. f c b) cs) * x b)
       = sum_list (map (\<lambda>c. \<Sum>b\<in>B. f c b * x b) cs)"
  by (induction cs) (simp_all add: algebra_simps sum.distrib)

lemma resistor_row:
  fixes x :: "nat \<Rightarrow> real"
  assumes "spec_N m \<le> n"
  shows "(\<Sum>b<n. resistor_stamp m R a b * x b)
       = (incidence m a (node1 R) - incidence m a (node2 R))
         * ((node_voltage m x (node1 R) - node_voltage m x (node2 R)) / comp_value R)"
proof -
  have e: "(\<Sum>b<n. entry i j v a b * x b) = (if a = i then v * x j else 0)"
    if "j < spec_N m" for i j v
    using sum_entry_row [where x = x and n = n and i = i and j = j and v = v and a = a] that assms
    by simp
  show ?thesis
  proof (cases "spec_index m (node1 R)")
    case None
    show ?thesis
    proof (cases "spec_index m (node2 R)")
      case n2: None
      then show ?thesis by (simp add: resistor_stamp_def None node_voltage_def incidence_def)
    next
      case (Some j)
      then show ?thesis using e [OF spec_index_less [OF Some]]
        by (simp add: resistor_stamp_def None node_voltage_def incidence_def)
    qed
  next
    case (Some i)
    note i = spec_index_less [OF Some]
    show ?thesis
    proof (cases "spec_index m (node2 R)")
      case None
      then show ?thesis using e [OF i]
        by (simp add: resistor_stamp_def Some node_voltage_def incidence_def)
    next
      case j: (Some j)
      note jl = spec_index_less [OF j]
      have "(\<Sum>b<n. resistor_stamp m R a b * x b)
          = (\<Sum>b<n. entry i i (1 / comp_value R) a b * x b + entry j j (1 / comp_value R) a b * x b
                   - entry i j (1 / comp_value R) a b * x b - entry j i (1 / comp_value R) a b * x b)"
        by (intro sum.cong refl) (simp add: resistor_stamp_def Some j algebra_simps)
      also have "\<dots> = (\<Sum>b<n. entry i i (1 / comp_value R) a b * x b)
                     + (\<Sum>b<n. entry j j (1 / comp_value R) a b * x b)
                     - (\<Sum>b<n. entry i j (1 / comp_value R) a b * x b)
                     - (\<Sum>b<n. entry j i (1 / comp_value R) a b * x b)"
        by (simp add: sum.distrib sum_subtractf)
      also have "\<dots> = (if a = i then 1 / comp_value R * x i else 0)
                     + (if a = j then 1 / comp_value R * x j else 0)
                     - (if a = i then 1 / comp_value R * x j else 0)
                     - (if a = j then 1 / comp_value R * x i else 0)"
        by (simp only: e [OF i] e [OF jl])
      also have "\<dots> = (incidence m a (node1 R) - incidence m a (node2 R))
         * ((node_voltage m x (node1 R) - node_voltage m x (node2 R)) / comp_value R)"
        by (simp add: Some j node_voltage_def incidence_def diff_divide_distrib)
      finally show ?thesis .
    qed
  qed
qed

lemma voltage_source_row_node:
  fixes x :: "nat \<Rightarrow> real"
  assumes "a < spec_N m" "spec_N m + k < n"
  shows "(\<Sum>b<n. voltage_source_stamp m k V a b * x b)
       = (incidence m a (node1 V) - incidence m a (node2 V)) * x (spec_N m + k)"
proof -
  have half: "(\<Sum>b<n. (case spec_index m t of
                 Some i \<Rightarrow> entry (spec_N m + k) i v a b + entry i (spec_N m + k) v a b
               | None \<Rightarrow> 0) * x b)
            = incidence m a t * v * x (spec_N m + k)" for t v
  proof (cases "spec_index m t")
    case None
    then show ?thesis by (simp add: incidence_def)
  next
    case (Some i)
    have "(\<Sum>b<n. (entry (spec_N m + k) i v a b + entry i (spec_N m + k) v a b) * x b)
        = (\<Sum>b<n. entry (spec_N m + k) i v a b * x b) + (\<Sum>b<n. entry i (spec_N m + k) v a b * x b)"
      by (simp add: algebra_simps sum.distrib)
    then show ?thesis
      using assms by (auto simp: Some incidence_def sum_entry_row)
  qed
  define A where "A = (\<lambda>b. case spec_index m (node1 V) of
                 Some i \<Rightarrow> entry (spec_N m + k) i 1 a b + entry i (spec_N m + k) 1 a b
               | None \<Rightarrow> (0 :: real))"
  define B where "B = (\<lambda>b. case spec_index m (node2 V) of
                 Some i \<Rightarrow> entry (spec_N m + k) i (- 1) a b + entry i (spec_N m + k) (- 1) a b
               | None \<Rightarrow> (0 :: real))"
  have "(\<Sum>b<n. voltage_source_stamp m k V a b * x b) = (\<Sum>b<n. A b * x b + B b * x b)"
    by (intro sum.cong refl) (simp add: voltage_source_stamp_def A_def B_def algebra_simps)
  also have "\<dots> = (\<Sum>b<n. A b * x b) + (\<Sum>b<n. B b * x b)"
    by (simp add: sum.distrib)
  also have "\<dots> = incidence m a (node1 V) * 1 * x (spec_N m + k)
                  + incidence m a (node2 V) * (- 1) * x (spec_N m + k)"
    unfolding A_def B_def by (simp only: half)
  also have "\<dots> = (incidence m a (node1 V) - incidence m a (node2 V)) * x (spec_N m + k)"
    by (simp add: algebra_simps)
  finally show ?thesis .
qed

lemma voltage_source_row_branch:
  fixes x :: "nat \<Rightarrow> real"
  assumes "spec_N m \<le> n"
  shows "(\<Sum>b<n. voltage_source_stamp m k2 V (spec_N m + k) b * x b)
       = (if k2 = k then node_voltage m x (node1 V) - node_voltage m x (node2 V) else 0)"
proof -
  have half: "(\<Sum>b<n. (case spec_index m t of
                 Some i \<Rightarrow> entry (spec_N m + k2) i v (spec_N m + k) b
                           + entry i (spec_N m + k2) v (spec_N m + k) b
               | None \<Rightarrow> 0) * x b)
            = (if k2 = k then v * node_voltage m x t else 0)" for t v
  proof (cases "spec_index m t")
    case None
    then show ?thesis by (simp add: node_voltage_def)
  next
    case (Some i)
    have i: "i < spec_N m" using Some by (rule spec_index_less)
    have "(\<Sum>b<n. (entry (spec_N m + k2) i v (spec_N m + k) b
                    + entry i (spec_N m + k2) v (spec_N m + k) b) * x b)
        = (\<Sum>b<n. entry (spec_N m + k2) i v (spec_N m + k) b * x b)
          + (\<Sum>b<n. entry i (spec_N m + k2) v (spec_N m + k) b * x b)"
      by (simp add: algebra_simps sum.distrib)
    then show ?thesis
      using assms i by (auto simp: Some node_voltage_def sum_entry_row)
  qed
  define A where "A = (\<lambda>b. case spec_index m (node1 V) of
                 Some i \<Rightarrow> entry (spec_N m + k2) i 1 (spec_N m + k) b
                           + entry i (spec_N m + k2) 1 (spec_N m + k) b
               | None \<Rightarrow> (0 :: real))"
  define B where "B = (\<lambda>b. case spec_index m (node2 V) of
                 Some i \<Rightarrow> entry (spec_N m + k2) i (- 1) (spec_N m + k) b
                           + entry i (spec_N m + k2) (- 1) (spec_N m + k) b
               | None \<Rightarrow> (0 :: real))"
  have "(\<Sum>b<n. voltage_source_stamp m k2 V (spec_N m + k) b * x b) = (\<Sum>b<n. A b * x b + B b * x b)"
    by (intro sum.cong refl) (simp add: voltage_source_stamp_def A_def B_def distrib_right)
  also have "\<dots> = (\<Sum>b<n. A b * x b) + (\<Sum>b<n. B b * x b)"
    by (simp add: sum.distrib)
  also have "\<dots> = (if k2 = k then 1 * node_voltage m x (node1 V) else 0)
                  + (if k2 = k then (- 1) * node_voltage m x (node2 V) else 0)"
    unfolding A_def B_def by (simp only: half)
  finally show ?thesis by simp
qed

lemma spec_G_row:
  fixes x :: "nat \<Rightarrow> real"
  shows "(\<Sum>b<n. spec_G m a b * x b)
       = sum_list (map (\<lambda>R. \<Sum>b<n. resistor_stamp m R a b * x b) (of_class Resistor m))
         + sum_list (map (\<lambda>kV. \<Sum>b<n. voltage_source_stamp m (fst kV) (snd kV) a b * x b)
              (enumerate 0 (of_class VoltageSource m)))"
proof -
  have "(\<Sum>b<n. spec_G m a b * x b)
      = (\<Sum>b<n. sum_list (map (\<lambda>R. resistor_stamp m R a b) (of_class Resistor m)) * x b
               + sum_list (map (\<lambda>kV. voltage_source_stamp m (fst kV) (snd kV) a b)
                    (enumerate 0 (of_class VoltageSource m))) * x b)"
    by (intro sum.cong refl) (simp add: spec_G_def distrib_right)
  also have "\<dots> = (\<Sum>b<n. sum_list (map (\<lambda>R. resistor_stamp m R a b) (of_class Resistor m)) * x b)
                 + (\<Sum>b<n. sum_list (map (\<lambda>kV. voltage_source_stamp m (fst kV) (snd kV) a b)
                      (enumerate 0 (of_class VoltageSource m))) * x b)"
    by (simp add: sum.distrib)
  finally show ?thesis by (simp only: sum_list_row)
qed

lemma sum_list_zero: "(\<And>c. c \<in> set cs \<Longrightarrow> f c = (0 :: real)) \<Longrightarrow> sum_list (map f cs) = 0"
  by (induction cs) simp_all

lemma node_row:
  fixes x :: "nat \<Rightarrow> real"
  assumes ids: "distinct (map comp_id (of_class VoltageSource m))" and a: "a < spec_N m"
  shows "(\<Sum>b<spec_N m + spec_M m. spec_G m a b * x b)
       = sum_list (map (\<lambda>R. (incidence m a (node1 R) - incidence m a (node2 R))
                          * ((node_voltage m x (node1 R) - node_voltage m x (node2 R)) / comp_value R))
                    (of_class Resistor m))
         + sum_list (map (\<lambda>V. (incidence m a (node1 V) - incidence m a (node2 V))
                          * branch_current m x (comp_id V))
                      (of_class VoltageSource m))"
    and "spec_Z m a = sum_list (map (\<lambda>C. current_source_stamp m C a) (of_class CurrentSource m))"
proof -
  define n where "n = spec_N m + spec_M m"
  define vss where "vss = of_class VoltageSource m"
  have Nn: "spec_N m \<le> n" by (simp add: n_def)
  have V: "sum_list (map (\<lambda>kV. \<Sum>b<n. voltage_source_stamp m (fst kV) (snd kV) a b * x b) (enumerate 0 vss))
         = sum_list (map (\<lambda>V. (incidence m a (node1 V) - incidence m a (node2 V))
                          * branch_current m x (comp_id V)) vss)"
  proof -
    have "sum_list (map (\<lambda>kV. \<Sum>b<n. voltage_source_stamp m (fst kV) (snd kV) a b * x b) (enumerate 0 vss))
        = (\<Sum>k<length vss. \<Sum>b<n. voltage_source_stamp m k (vss ! k) a b * x b)"
      by (simp add: sum_enumerate)
    also have "\<dots> = (\<Sum>k<length vss. (incidence m a (node1 (vss ! k)) - incidence m a (node2 (vss ! k)))
                          * branch_current m x (comp_id (vss ! k)))"
    proof (rule sum.cong [OF refl])
      fix k assume "k \<in> {..<length vss}"
      then have k: "k < length vss" by simp
      then have "spec_N m + k < n" by (simp add: n_def spec_M_def vss_def)
      moreover have "branch_current m x (comp_id (vss ! k)) = x (spec_N m + k)"
        using find_vs_nth [OF ids [folded vss_def] k, of 0]
        by (simp add: branch_current_def vss_def [symmetric])
      ultimately show "(\<Sum>b<n. voltage_source_stamp m k (vss ! k) a b * x b)
           = (incidence m a (node1 (vss ! k)) - incidence m a (node2 (vss ! k)))
             * branch_current m x (comp_id (vss ! k))"
        using voltage_source_row_node [OF a, where k = k and n = n and x = x and V = "vss ! k"] by simp
    qed
    also have "\<dots> = sum_list (map (\<lambda>V. (incidence m a (node1 V) - incidence m a (node2 V))
                          * branch_current m x (comp_id V)) vss)"
      by (simp add: sum_list_nth_map)
    finally show ?thesis .
  qed
  show "(\<Sum>b<spec_N m + spec_M m. spec_G m a b * x b)
       = sum_list (map (\<lambda>R. (incidence m a (node1 R) - incidence m a (node2 R))
                          * ((node_voltage m x (node1 R) - node_voltage m x (node2 R)) / comp_value R))
                    (of_class Resistor m))
         + sum_list (map (\<lambda>V. (incidence m a (node1 V) - incidence m a (node2 V))
                          * branch_current m x (comp_id V))
                      (of_class VoltageSource m))"
    unfolding n_def [symmetric] spec_G_row
    by (simp only: resistor_row [OF Nn] V [unfolded vss_def])
  have "sum_list (map (\<lambda>kV. if a = spec_N m + fst kV then comp_value (snd kV) else 0)
           (enumerate 0 (of_class VoltageSource m))) = 0"
    using a by (intro sum_list_zero) auto
  then show "spec_Z m a = sum_list (map (\<lambda>C. current_source_stamp m C a) (of_class CurrentSource m))"
    by (simp add: spec_Z_def)
qed

lemma branch_row:
  fixes x :: "nat \<Rightarrow> real"
  assumes k: "k < spec_M m"
  shows "(\<Sum>b<spec_N m + spec_M m. spec_G m (spec_N m + k) b * x b)
       = node_voltage m x (node1 (of_class VoltageSource m ! k))
         - node_voltage m x (node2 (of_class VoltageSource m ! k))"
    and "spec_Z m (spec_N m + k) = comp_value (of_class VoltageSource m ! k)"
proof -
  define n where "n = spec_N m + spec_M m"
  define vss where "vss = of_class VoltageSource m"
  have Nn: "spec_N m \<le> n" by (simp add: n_def)
  have kl: "k < length vss" using k by (simp add: spec_M_def vss_def)
  have R: "sum_list (map (\<lambda>R. \<Sum>b<n. resistor_stamp m R (spec_N m + k) b * x b) (of_class Resistor m)) = 0"
    by (intro sum_list_zero) (simp add: resistor_stamp_outside)
  have V: "sum_list (map (\<lambda>kV. \<Sum>b<n. voltage_source_stamp m (fst kV) (snd kV) (spec_N m + k) b * x b)
              (enumerate 0 vss))
         = node_voltage m x (node1 (vss ! k)) - node_voltage m x (node2 (vss ! k))"
  proof -
    have "sum_list (map (\<lambda>kV. \<Sum>b<n. voltage_source_stamp m (fst kV) (snd kV) (spec_N m + k) b * x b)
              (enumerate 0 vss))
        = (\<Sum>k2<length vss. \<Sum>b<n. voltage_source_stamp m k2 (vss ! k2) (spec_N m + k) b * x b)"
      by (simp add: sum_enumerate)
    also have "\<dots> = (\<Sum>k2<length vss. if k2 = k
                       then node_voltage m x (node1 (vss ! k)) - node_voltage m x (node2 (vss ! k))
                       else 0)"
      by (intro sum.cong refl) (simp add: voltage_source_row_branch [OF Nn])
    also have "\<dots> = node_voltage m x (node1 (vss ! k)) - node_voltage m x (node2 (vss ! k))"
      using kl by (simp add: sum.delta)
    finally show ?thesis .
  qed
  show "(\<Sum>b<spec_N m + spec_M m. spec_G m (spec_N m + k) b * x b)
       = node_voltage m x (node1 (of_class VoltageSource m ! k))
         - node_voltage m x (node2 (of_class VoltageSource m ! k))"
    unfolding n_def [symmetric] spec_G_row by (simp only: R V [unfolded vss_def])
  have "sum_list (map (\<lambda>kV. if spec_N m + k = spec_N m + fst kV then comp_value (snd kV) else 0)
           (enumerate 0 vss))
      = (\<Sum>k2<length vss. if k2 = k then comp_value (vss ! k) else 0)"
    unfolding sum_enumerate by (intro sum.cong refl) auto
  also have "\<dots> = comp_value (vss ! k)" using kl by (simp add: sum.delta)
  finally show "spec_Z m (spec_N m + k) = comp_value (of_class VoltageSource m ! k)"
    by (simp add: spec_Z_def current_source_stamp_outside vss_def sum_list_zero)
qed

lemma satisfies_kirchhoff:
  assumes ids: "distinct (map comp_id (of_class VoltageSource m))"
  shows "satisfies m lam x \<longleftrightarrow> kirchhoff m lam x (branch_current m x)"
proof -
  have split: "(\<forall>a < spec_N m + spec_M m. P a)
      \<longleftrightarrow> (\<forall>a < spec_N m. P a) \<and> (\<forall>k < spec_M m. P (spec_N m + k))" for P
  proof
    assume h: "\<forall>a < spec_N m + spec_M m. P a"
    then show "(\<forall>a < spec_N m. P a) \<and> (\<forall>k < spec_M m. P (spec_N m + k))" by simp
  next
    assume h: "(\<forall>a < spec_N m. P a) \<and> (\<forall>k < spec_M m. P (spec_N m + k))"
    show "\<forall>a < spec_N m + spec_M m. P a"
    proof (intro allI impI)
      fix a assume a: "a < spec_N m + spec_M m"
      show "P a"
      proof (cases "a < spec_N m")
        case True
        then show ?thesis using h by simp
      next
        case False
        then have "a - spec_N m < spec_M m" "a = spec_N m + (a - spec_N m)" using a by simp_all
        then show ?thesis using h by metis
      qed
    qed
  qed
  have vs: "(\<forall>V \<in> set (of_class VoltageSource m). Q V)
      \<longleftrightarrow> (\<forall>k < spec_M m. Q (of_class VoltageSource m ! k))" for Q
    by (simp add: all_set_conv_all_nth spec_M_def)
  show ?thesis
    unfolding satisfies_def kirchhoff_def split vs
    by (simp add: node_row [OF ids] branch_row)
qed

subsection \<open>Reordering the component list\<close>

lemma dict_set_append: "comp_id c \<notin> set (map comp_id ds) \<Longrightarrow> dict_set ds c = ds @ [c]"
  by (induction ds) auto

lemma components_add_all:
  "distinct (map comp_id (components m0 @ cs)) \<Longrightarrow> components (add_all m0 cs) = components m0 @ cs"
proof (induction cs arbitrary: m0)
  case Nil
  then show ?case by (simp add: add_all_def)
next
  case (Cons c cs)
  have 1: "components (add_component m0 c) = components m0 @ [c]"
    using Cons.prems by (simp add: add_component_def dict_set_append)
  have "components (add_all (add_component m0 c) cs) = components (add_component m0 c) @ cs"
    using Cons.prems by (intro Cons.IH) (simp add: 1)
  then show ?case by (simp add: add_all_def 1)
qed

lemma components_make_circuit:
  "distinct (map comp_id cs) \<Longrightarrow> components (make_circuit cs r) = cs"
  using components_add_all [of new_model cs]
  by (simp add: make_circuit_def mark_reference_def new_model_def)

lemma nodes_add_all:
  "set (nodes (add_all m0 cs)) = set (nodes m0) \<union> (\<Union>c \<in> set cs. {node1 c, node2 c})"
proof (induction cs arbitrary: m0)
  case Nil
  then show ?case by (simp add: add_all_def)
next
  case (Cons c cs)
  have "set (nodes (add_all (add_component m0 c) cs))
      = set (nodes (add_component m0 c)) \<union> (\<Union>c \<in> set cs. {node1 c, node2 c})"
    by (rule Cons.IH)
  then show ?case by (auto simp: add_all_def nodes_add_component)
qed

lemma nodes_make_circuit:
  "set (nodes (make_circuit cs r)) = insert r (\<Union>c \<in> set cs. {node1 c, node2 c})"
  by (auto simp: make_circuit_def mark_reference_def nodes_add_all set_set_add new_model_def)

lemma non_reference_nodes_permuted:
  assumes "set cs' = set cs"
  shows "get_non_reference_nodes (make_circuit cs' r) = get_non_reference_nodes (make_circuit cs r)"
proof (rule sorted_distinct_set_unique)
  have d: "distinct (nodes (make_circuit cs r))" "distinct (nodes (make_circuit cs' r))"
    using make_circuit_ok by (simp_all add: model_ok_def)
  show "sorted (get_non_reference_nodes (make_circuit cs' r))"
    "sorted (get_non_reference_nodes (make_circuit cs r))"
    by (simp_all add: get_non_reference_nodes_def)
  show "distinct (get_non_reference_nodes (make_circuit cs' r))"
    "distinct (get_non_reference_nodes (make_circuit cs r))"
    using d by (simp_all add: get_non_reference_nodes_def)
  show "set (get_non_reference_nodes (make_circuit cs' r))
      = set (get_non_reference_nodes (make_circuit cs r))"
    using assms by (simp add: get_non_reference_nodes_def nodes_make_circuit)
qed

lemma sum_list_mset:
  fixes f :: "'a \<Rightarrow> real"
  assumes "mset xs = mset ys"
  shows "sum_list (map f xs) = sum_list (map f ys)"
proof -
  have "sum_list (map f xs) = sum_mset (image_mset f (mset xs))"
    by (metis mset_map sum_mset_sum_list)
  also have "\<dots> = sum_mset (image_mset f (mset ys))" using assms by simp
  also have "\<dots> = sum_list (map f ys)" by (metis mset_map sum_mset_sum_list)
  finally show ?thesis .
qed

lemma reordered_sym: "reordered m' m \<Longrightarrow> reordered m m'"
  by (simp add: reordered_def)

lemma reordered_of_class:
  "reordered m' m \<Longrightarrow> mset (of_class k m') = mset (of_class k m)"
  by (simp add: reordered_def of_class_def)

lemma reordered_set_of_class:
  "reordered m' m \<Longrightarrow> set (of_class k m') = set (of_class k m)"
  using reordered_of_class [of m' m k] by (rule mset_eq_setD)

lemma reordered_index:
  assumes "reordered m' m"
  shows "spec_index m' = spec_index m" "spec_N m' = spec_N m" "spec_M m' = spec_M m"
proof -
  show "spec_index m' = spec_index m" using assms by (simp add: reordered_def spec_index_def fun_eq_iff)
  show "spec_N m' = spec_N m" using assms by (simp add: reordered_def spec_N_def)
  show "spec_M m' = spec_M m"
    unfolding spec_M_def by (rule mset_eq_length [OF reordered_of_class [OF assms]])
qed

lemma reordered_distinct:
  assumes "reordered m' m" "distinct (map comp_id (of_class VoltageSource m))"
  shows "distinct (map comp_id (of_class VoltageSource m'))"
proof -
  have "mset (map comp_id (of_class VoltageSource m')) = mset (map comp_id (of_class VoltageSource m))"
    using reordered_of_class [OF assms(1), of VoltageSource] by simp
  then show ?thesis using assms(2) by (metis mset_eq_imp_distinct_iff)
qed

lemma kirchhoff_reordered:
  assumes "reordered m' m"
  shows "kirchhoff m' lam x cur \<longleftrightarrow> kirchhoff m lam x cur"
proof -
  note i = reordered_index [OF assms]
  have inc: "incidence m' = incidence m" by (simp add: incidence_def fun_eq_iff i)
  have nv: "node_voltage m' = node_voltage m" by (simp add: node_voltage_def fun_eq_iff i)
  have cs: "current_source_stamp m' = current_source_stamp m"
    by (simp add: current_source_stamp_def fun_eq_iff i)
  have s: "sum_list (map f (of_class k m')) = sum_list (map f (of_class k m))" for f :: "component \<Rightarrow> real" and k
    using reordered_of_class [OF assms] by (rule sum_list_mset)
  show ?thesis
    unfolding kirchhoff_def inc nv cs i s reordered_set_of_class [OF assms] ..
qed

lemma node_voltage_cong:
  assumes "\<And>i. i < spec_N m \<Longrightarrow> x i = y i"
  shows "node_voltage m x t = node_voltage m y t"
proof (cases "spec_index m t")
  case None
  then show ?thesis by (simp add: node_voltage_def)
next
  case (Some i)
  then have "i < spec_N m" using index_of_Some [of "get_non_reference_nodes m" t i]
    by (simp add: spec_index_def spec_N_def)
  then show ?thesis using Some assms by (simp add: node_voltage_def)
qed

lemma sum_list_cong_set:
  "(\<And>c. c \<in> set cs \<Longrightarrow> f c = (g c :: real)) \<Longrightarrow> sum_list (map f cs) = sum_list (map g cs)"
  by (induction cs) simp_all

lemma kirchhoff_cong:
  assumes x: "\<And>i. i < spec_N m \<Longrightarrow> x i = y i"
    and c: "\<And>V. V \<in> set (of_class VoltageSource m) \<Longrightarrow> cur (comp_id V) = cur' (comp_id V)"
  shows "kirchhoff m lam x cur \<longleftrightarrow> kirchhoff m lam y cur'"
proof -
  have nv: "node_voltage m x = node_voltage m y"
    using node_voltage_cong [OF x] by (simp add: fun_eq_iff)
  have s: "sum_list (map (\<lambda>V. (incidence m a (node1 V) - incidence m a (node2 V)) * cur (comp_id V))
                      (of_class VoltageSource m))
         = sum_list (map (\<lambda>V. (incidence m a (node1 V) - incidence m a (node2 V)) * cur' (comp_id V))
                      (of_class VoltageSource m))" for a
    by (rule sum_list_cong_set) (simp add: c)
  show ?thesis unfolding kirchhoff_def nv s ..
qed

lemma branch_current_reorder:
  assumes r: "reordered m' m" and ids: "distinct (map comp_id (of_class VoltageSource m))"
    and V: "V \<in> set (of_class VoltageSource m')"
  shows "branch_current m' (reorder_solution m' m x) (comp_id V) = branch_current m x (comp_id V)"
proof -
  from V obtain k where k: "k < length (of_class VoltageSource m')" "of_class VoltageSource m' ! k = V"
    by (auto simp: in_set_conv_nth)
  have "find_vs (of_class VoltageSource m') 0 (comp_id V) = Some k"
    using find_vs_nth [OF reordered_distinct [OF r ids] k(1), of 0] k(2) by simp
  then show ?thesis
    by (simp add: branch_current_def reorder_solution_def reordered_index [OF r] k(2))
qed

lemma satisfies_reorder:
  assumes r: "reordered m' m" and ids: "distinct (map comp_id (of_class VoltageSource m))"
    and s: "satisfies m lam x"
  shows "satisfies m' lam (reorder_solution m' m x)"
proof -
  have "kirchhoff m lam x (branch_current m x)"
    using s satisfies_kirchhoff [OF ids] by simp
  then have "kirchhoff m' lam x (branch_current m x)"
    using kirchhoff_reordered [OF r] by simp
  moreover have "kirchhoff m' lam x (branch_current m x)
      \<longleftrightarrow> kirchhoff m' lam (reorder_solution m' m x) (branch_current m' (reorder_solution m' m x))"
  proof (rule kirchhoff_cong)
    fix i assume "i < spec_N m'"
    then show "x i = reorder_solution m' m x i"
      by (simp add: reorder_solution_def reordered_index [OF r])
  next
    fix V assume "V \<in> set (of_class VoltageSource m')"
    then show "branch_current m x (comp_id V)
             = branch_current m' (reorder_solution m' m x) (comp_id V)"
      using branch_current_reorder [OF r ids] by simp
  qed
  ultimately show ?thesis
    using satisfies_kirchhoff [OF reordered_distinct [OF r ids]] by simp
qed

lemma reorder_zero:
  assumes r: "reordered m' m" and ids: "distinct (map comp_id (of_class VoltageSource m))"
    and z: "\<And>b. b < spec_N m + spec_M m \<Longrightarrow> reorder_solution m' m x b = 0"
    and b: "b < spec_N m + spec_M m"
  shows "x b = 0"
proof (cases "b < spec_N m")
  case True
  then show ?thesis using z [OF b] by (simp add: reorder_solution_def)
next
  case False
  define k where "k = b - spec_N m"
  have k: "k < length (of_class VoltageSource m)" "b = spec_N m + k"
    using False b by (simp_all add: k_def spec_M_def)
  define V where "V = of_class VoltageSource m ! k"
  have "V \<in> set (of_class VoltageSource m')"
    using k(1) reordered_set_of_class [OF r, of VoltageSource] by (simp add: V_def)
  then obtain k' where k': "k' < length (of_class VoltageSource m')" "of_class VoltageSource m' ! k' = V"
    by (auto simp: in_set_conv_nth)
  have "spec_N m + k' < spec_N m + spec_M m"
    using k'(1) reordered_index(3) [OF r] by (simp add: spec_M_def)
  from z [OF this] have "branch_current m x (comp_id V) = 0"
    by (simp add: reorder_solution_def k'(2))
  moreover have "find_vs (of_class VoltageSource m) 0 (comp_id V) = Some k"
    using find_vs_nth [OF ids k(1), of 0] by (simp add: V_def)
  ultimately show ?thesis by (simp add: branch_current_def k(2))
qed

lemma satisfies_cong:
  assumes "\<And>i. i < spec_N m + spec_M m \<Longrightarrow> x i = y i"
  shows "satisfies m lam x \<longleftrightarrow> satisfies m lam y"
proof -
  have "(\<Sum>b < spec_N m + spec_M m. spec_G m a b * x b)
      = (\<Sum>b < spec_N m + spec_M m. spec_G m a b * y b)" for a
    by (intro sum.cong refl) (simp add: assms)
  then show ?thesis by (simp add: satisfies_def)
qed

lemma dot_spec_row:
  assumes "length Y = spec_N m + spec_M m" "a < spec_N m + spec_M m"
  shows "dot (spec_matrix m ! a) Y = (\<Sum>b < spec_N m + spec_M m. spec_G m a b * Y ! b)"
proof -
  have l: "length (spec_matrix m ! a) = length Y"
    using assms by (simp add: spec_matrix_def)
  have "dot (spec_matrix m ! a) Y = (\<Sum>b<length (spec_matrix m ! a). spec_matrix m ! a ! b * Y ! b)"
    by (rule dot_sum [OF l])
  also have "\<dots> = (\<Sum>b < spec_N m + spec_M m. spec_G m a b * Y ! b)"
    using assms l by (intro sum.cong) (simp_all add: spec_matrix_nth)
  finally show ?thesis .
qed

lemma rows_satisfies:
  assumes "length Y = spec_N m + spec_M m"
  shows "(\<forall>r \<in> set (zip (spec_matrix m) (spec_vector m)). dot (fst r) Y = lam * snd r)
         \<longleftrightarrow> satisfies m lam (\<lambda>i. Y ! i)"
proof -
  define n where "n = spec_N m + spec_M m"
  have len: "length (spec_matrix m) = n" "length (spec_vector m) = n"
    by (simp_all add: spec_matrix_def spec_vector_def n_def)
  have "(\<forall>r \<in> set (zip (spec_matrix m) (spec_vector m)). dot (fst r) Y = lam * snd r)
      \<longleftrightarrow> (\<forall>a<n. dot (spec_matrix m ! a) Y = lam * spec_vector m ! a)"
    using len by (auto simp: set_zip)
  also have "\<dots> \<longleftrightarrow> satisfies m lam (\<lambda>i. Y ! i)"
    unfolding satisfies_def n_def
    using dot_spec_row [OF assms] by (simp add: spec_vector_nth)
  finally show ?thesis .
qed

lemma well_formed_spec:
  "well_formed (spec_N m + spec_M m) (zip (spec_matrix m) (spec_vector m))"
  by (auto simp: well_formed_def spec_matrix_def spec_vector_def dest!: set_zip_leftD)

lemma linalg_solve_spec:
  "linalg_solve (spec_matrix m) (spec_vector m)
     = (case gauss (spec_N m + spec_M m) (zip (spec_matrix m) (spec_vector m)) of
          None \<Rightarrow> Inl LinAlgError | Some X \<Rightarrow> Inr X)"
  by (simp add: linalg_solve_def list_all_iff spec_matrix_def spec_vector_def)

lemma branch_current_cong:
  assumes "\<And>i. i < spec_N m + spec_M m \<Longrightarrow> x i = y i"
  shows "branch_current m x i = branch_current m y i"
proof (cases "find_vs (of_class VoltageSource m) 0 i")
  case None
  then show ?thesis by (simp add: branch_current_def)
next
  case (Some k)
  then have "spec_N m + k < spec_N m + spec_M m"
    using find_vs_less [OF Some] by (simp add: spec_M_def)
  then show ?thesis using Some assms by (simp add: branch_current_def)
qed

lemma result_of_cong:
  assumes "\<And>i. i < spec_N m + spec_M m \<Longrightarrow> x i = y i"
  shows "result_of m x c = result_of m y c"
proof -
  have nv: "node_voltage m x = node_voltage m y"
    using node_voltage_cong [of m x y] assms by (simp add: fun_eq_iff)
  have "component_current m x c = component_current m y c"
    using branch_current_cong [OF assms] by (simp add: component_current_def nv split: kind.splits)
  then show ?thesis by (simp add: result_of_def nv)
qed

lemma result_of_reorder:
  assumes r: "reordered m' m" and ids: "distinct (map comp_id (of_class VoltageSource m))"
    and c: "c \<in> set (components m')"
  shows "result_of m' (reorder_solution m' m x) c = result_of m x c"
proof -
  have "node_voltage m' (reorder_solution m' m x) = node_voltage m' x"
    using node_voltage_cong [of m' "reorder_solution m' m x" x]
    by (simp add: fun_eq_iff reorder_solution_def reordered_index [OF r])
  also have "\<dots> = node_voltage m x"
    by (simp add: node_voltage_def fun_eq_iff reordered_index [OF r])
  finally have nv: "node_voltage m' (reorder_solution m' m x) = node_voltage m x" .
  have "component_current m' (reorder_solution m' m x) c = component_current m x c"
  proof (cases "comp_class c")
    case VoltageSource
    then have "c \<in> set (of_class VoltageSource m')" using c by (simp add: of_class_def)
    from branch_current_reorder [OF r ids this] show ?thesis
      using VoltageSource by (simp add: component_current_def)
  qed (simp_all add: component_current_def nv)
  then show ?thesis by (simp add: result_of_def nv)
qed

lemma calculate_result_of:
  assumes d: "\<And>t. voltage_at d t = node_voltage m (\<lambda>i. X ! i) t"
    and X: "length X = spec_N m + spec_M m"
    and R: "comp_class c = Resistor \<longrightarrow> comp_value c \<noteq> 0"
  shows "calculate_component_result (circuit_solver m) c d (drop (spec_N m) X)
       = Inr (result_of m (\<lambda>i. X ! i) c)"
proof (cases "comp_class c")
  case Resistor
  then show ?thesis using R
    by (simp add: calculate_component_result_def result_of_def component_current_def d and_then_def Let_def)
next
  case CurrentSource
  then show ?thesis
    by (simp add: calculate_component_result_def result_of_def component_current_def d and_then_def Let_def)
next
  case VoltageSource
  show ?thesis
  proof (cases "find_vs (of_class VoltageSource m) 0 (comp_id c)")
    case None
    then show ?thesis using VoltageSource
      by (simp add: calculate_component_result_def result_of_def component_current_def d and_then_def Let_def
          branch_current_def)
  next
    case (Some k)
    have k: "k < spec_M m" using find_vs_less [OF Some] by (simp add: spec_M_def)
    then have "k < length (drop (spec_N m) X)" "drop (spec_N m) X ! k = X ! (spec_N m + k)"
      using X by simp_all
    then show ?thesis using VoltageSource Some
      by (simp add: calculate_component_result_def result_of_def component_current_def d and_then_def Let_def
          branch_current_def)
  qed
qed

lemma component_results_result_of:
  assumes d: "\<And>t. voltage_at d t = node_voltage m (\<lambda>i. X ! i) t"
    and X: "length X = spec_N m + spec_M m"
    and R: "\<forall>c \<in> set cs. comp_class c = Resistor \<longrightarrow> comp_value c \<noteq> 0"
  shows "component_results (circuit_solver m) cs d (drop (spec_N m) X)
       = Inr (map (result_of m (\<lambda>i. X ! i)) cs)"
  using R
proof (induction cs)
  case Nil
  then show ?case by simp
next
  case (Cons c cs)
  have "calculate_component_result (circuit_solver m) c d (drop (spec_N m) X)
       = Inr (result_of m (\<lambda>i. X ! i) c)"
    using Cons.prems by (intro calculate_result_of [OF d X]) simp
  then show ?case using Cons by (simp add: and_then_def)
qed

lemma fill_voltages_cong:
  "non_ref_nodes s' = non_ref_nodes s \<Longrightarrow> fill_voltages s' i vs d = fill_voltages s i vs d"
  by (induction vs arbitrary: i d) simp_all

lemma solve_reordered:
  assumes ok: "model_ok m" and ok': "model_ok m'"
    and r: "reordered m' m"
    and vs: "\<forall>V \<in> set (of_class VoltageSource m). node1 V = node2 V \<longrightarrow> node1 V = reference_node m"
    and solved: "solve (circuit_solver m) = Solved sol"
  shows "\<exists>sol' x. solve (circuit_solver m') = Solved sol'
           \<and> voltages sol' = voltages sol
           \<and> results sol = map (result_of m x) (components m)
           \<and> results sol' = map (result_of m x) (components m')"
proof -
  define n where "n = spec_N m + spec_M m"
  note i = reordered_index [OF r]
  have n': "spec_N m' + spec_M m' = n" by (simp add: i n_def)
  have ids: "distinct (map comp_id (of_class VoltageSource m))"
    using ok by (simp add: model_ok_def of_class_def distinct_map_filter)
  have ids': "distinct (map comp_id (of_class VoltageSource m'))"
    by (rule reordered_distinct [OF r ids])
  have r': "reordered m m'" by (rule reordered_sym [OF r])
  have ref: "reference_node m' = reference_node m" using r by (simp add: reordered_def)
  have wf: "well_formed n (zip (spec_matrix m) (spec_vector m))"
    unfolding n_def by (rule well_formed_spec)
  have wf': "well_formed n (zip (spec_matrix m') (spec_vector m'))"
    using well_formed_spec [of m'] by (simp only: n')
  from solve_Solved [OF solved] obtain G Z X where
    build: "build_mna_system (circuit_solver m) = Inr (G, Z)"
    and lin: "linalg_solve G Z = Inr X"
    and pack: "package_solution (circuit_solver m) (take (spec_N m) X) (drop (spec_N m) X) G Z = Inr sol"
    by auto
  have res: "\<forall>R \<in> set (of_class Resistor m). comp_value R \<noteq> 0"
  proof (rule ccontr)
    assume "\<not> ?thesis"
    then have "\<exists>R \<in> set (of_class Resistor m). comp_value R = 0" by simp
    from solve_zero_resistor [OF ok this] solved show False by simp
  qed
  have GZ: "G = spec_matrix m" "Z = spec_vector m"
    using build_mna_system_spec [OF ok res vs] build by simp_all
  have g: "gauss n (zip (spec_matrix m) (spec_vector m)) = Some X"
    using lin unfolding GZ linalg_solve_spec n_def by (simp split: option.splits)
  from gauss_sound [OF wf g] have X: "length X = n"
    and rows: "\<forall>r \<in> set (zip (spec_matrix m) (spec_vector m)). dot (fst r) X = snd r" by auto
  define x where "x = (\<lambda>i. X ! i)"
  have sat: "satisfies m 1 x"
    using rows_satisfies [of X m 1] X rows by (simp add: n_def x_def)
  define x' where "x' = reorder_solution m' m x"
  define X' where "X' = map x' [0..<n]"
  have lX': "length X' = n" by (simp add: X'_def)
  have X'x': "\<And>i. i < n \<Longrightarrow> X' ! i = x' i" by (simp add: X'_def)
  have "satisfies m' 1 x'"
    unfolding x'_def by (rule satisfies_reorder [OF r ids sat])
  then have "satisfies m' 1 (\<lambda>i. X' ! i)"
    using satisfies_cong [of m' "\<lambda>i. X' ! i" x' 1] X'x' by (simp add: n')
  then have rows': "\<forall>r \<in> set (zip (spec_matrix m') (spec_vector m')). dot (fst r) X' = snd r"
    using rows_satisfies [of X' m' 1] lX' by (simp add: n')
  have res': "\<forall>R \<in> set (of_class Resistor m'). comp_value R \<noteq> 0"
    using res by (simp add: reordered_set_of_class [OF r])
  have vs': "\<forall>V \<in> set (of_class VoltageSource m'). node1 V = node2 V \<longrightarrow> node1 V = reference_node m'"
    using vs by (simp add: reordered_set_of_class [OF r] ref)
  have build': "build_mna_system (circuit_solver m') = Inr (spec_matrix m', spec_vector m')"
    by (rule build_mna_system_spec [OF ok' res' vs'])
  have g': "gauss n (zip (spec_matrix m') (spec_vector m')) = Some X'"
  proof (cases "gauss n (zip (spec_matrix m') (spec_vector m'))")
    case None
    from gauss_None [OF wf' None] obtain y' where
      y': "length y' = n" "y' \<noteq> replicate n 0"
      "\<forall>r \<in> set (zip (spec_matrix m') (spec_vector m')). dot (fst r) y' = 0" by blast
    have "satisfies m' 0 (\<lambda>i. y' ! i)"
      using rows_satisfies [of y' m' 0] y'(1,3) by (simp add: n')
    then have s0: "satisfies m 0 (reorder_solution m m' (\<lambda>i. y' ! i))"
      by (rule satisfies_reorder [OF r' ids'])
    define y where "y = map (reorder_solution m m' (\<lambda>i. y' ! i)) [0..<n]"
    have ly: "length y = n" by (simp add: y_def)
    have "satisfies m 0 (\<lambda>i. y ! i)"
      using satisfies_cong [of m "\<lambda>i. y ! i" "reorder_solution m m' (\<lambda>i. y' ! i)" 0] s0
      by (simp add: y_def n_def)
    then have yrows: "\<forall>r \<in> set (zip (spec_matrix m) (spec_vector m)). dot (fst r) y = 0"
      using rows_satisfies [of y m 0] ly by (simp add: n_def)
    have "y \<noteq> replicate n 0"
    proof
      assume y0: "y = replicate n 0"
      have z: "reorder_solution m m' (\<lambda>i. y' ! i) b = 0" if "b < spec_N m' + spec_M m'" for b
      proof -
        have "b < n" using that by (simp add: n')
        then have "y ! b = reorder_solution m m' (\<lambda>i. y' ! i) b" by (simp add: y_def)
        then show ?thesis using y0 \<open>b < n\<close> by simp
      qed
      have "y' ! b = 0" if "b < n" for b
        using reorder_zero [OF r' ids' z, of b] that by (simp add: n')
      then have "y' = replicate n 0"
        by (intro nth_equalityI) (simp_all add: y'(1))
      then show False using y'(2) by simp
    qed
    from singular_gauss_None [OF wf ly this yrows] g show ?thesis by simp
  next
    case (Some X'')
    from gauss_unique [OF wf' Some lX' rows'] show ?thesis using Some by simp
  qed
  have lin': "linalg_solve (spec_matrix m') (spec_vector m') = Inr X'"
    unfolding linalg_solve_spec n' by (simp add: g')
  from voltages_of_solution [OF ok X [unfolded n_def]] obtain d where
    d: "fill_voltages (circuit_solver m) 0 (take (spec_N m) X) [(reference_node m, 0)] = Inr d"
       "\<And>t. voltage_at d t = node_voltage m (\<lambda>i. X ! i) t" by blast
  have R: "\<forall>c \<in> set (components m). comp_class c = Resistor \<longrightarrow> comp_value c \<noteq> 0"
    using res by (simp add: of_class_def)
  have rs: "component_results (circuit_solver m) (components m) d (drop (spec_N m) X)
          = Inr (map (result_of m x) (components m))"
    unfolding x_def by (rule component_results_result_of [OF d(2) X [unfolded n_def] R])
  have sol: "voltages sol = d" "results sol = map (result_of m x) (components m)"
    using pack d(1) rs by (auto simp: package_solution_def and_then_def)
  from voltages_of_solution [OF ok' lX' [folded n']] obtain d' where
    d': "fill_voltages (circuit_solver m') 0 (take (spec_N m') X') [(reference_node m', 0)] = Inr d'"
       "\<And>t. voltage_at d' t = node_voltage m' (\<lambda>i. X' ! i) t" by blast
  have "take (spec_N m) X' = take (spec_N m) X"
  proof (rule nth_equalityI)
    show "length (take (spec_N m) X') = length (take (spec_N m) X)" by (simp add: lX' X)
  next
    fix b assume "b < length (take (spec_N m) X')"
    then have b: "b < spec_N m" "b < n" by (simp_all add: lX' n_def)
    then show "take (spec_N m) X' ! b = take (spec_N m) X ! b"
      by (simp add: X'x' x'_def reorder_solution_def x_def)
  qed
  moreover have "non_ref_nodes (circuit_solver m') = non_ref_nodes (circuit_solver m)"
    using r by (simp add: reordered_def)
  ultimately have dd: "d' = d"
    using d(1) d'(1) fill_voltages_cong [of "circuit_solver m'" "circuit_solver m"]
    by (simp add: i ref)
  have R': "\<forall>c \<in> set (components m'). comp_class c = Resistor \<longrightarrow> comp_value c \<noteq> 0"
    using res' by (simp add: of_class_def)
  have "map (result_of m' (\<lambda>i. X' ! i)) (components m') = map (result_of m x) (components m')"
  proof (rule map_cong [OF refl])
    fix c assume c: "c \<in> set (components m')"
    have "result_of m' (\<lambda>i. X' ! i) c = result_of m' x' c"
      by (rule result_of_cong) (simp add: n' X'x')
    also have "\<dots> = result_of m x c"
      unfolding x'_def by (rule result_of_reorder [OF r ids c])
    finally show "result_of m' (\<lambda>i. X' ! i) c = result_of m x c" .
  qed
  then have rs': "component_results (circuit_solver m') (components m') d' (drop (spec_N m') X')
          = Inr (map (result_of m x) (components m'))"
    using component_results_result_of [OF d'(2) lX' [folded n'] R'] by simp
  obtain sol' where pack': "package_solution (circuit_solver m') (take (spec_N m') X')
       (drop (spec_N m') X') (spec_matrix m') (spec_vector m') = Inr sol'"
    and sol': "voltages sol' = d'" "results sol' = map (result_of m x) (components m')"
    using d'(1) rs' by (simp add: package_solution_def and_then_def)
  have "solve (circuit_solver m') = Solved sol'"
    unfolding solve_def build' by (simp add: lin' pack')
  then show ?thesis using sol sol' dd by blast
qed

lemma reordered_make_circuit:
  assumes "distinct (map comp_id cs)" "mset cs' = mset cs"
  shows "reordered (make_circuit cs' r) (make_circuit cs r)"
proof -
  have "mset (map comp_id cs') = mset (map comp_id cs)" using assms(2) by simp
  then have d': "distinct (map comp_id cs')" using assms(1) by (metis mset_eq_imp_distinct_iff)
  have s: "set cs' = set cs" using assms(2) by (rule mset_eq_setD)
  show ?thesis
    unfolding reordered_def
    by (simp add: components_make_circuit [OF assms(1)] components_make_circuit [OF d']
        non_reference_nodes_permuted [OF s] assms(2))
qed

lemma two_source_system:
  "build_mna_system (circuit_solver
       (make_circuit [comp 0 VoltageSource 10 1 0, comp 1 Resistor 1000 1 2,
                      comp 2 VoltageSource 5 2 0] 0))
     = Inr ([[1 / 1000, - (1 / 1000), 1, 0], [- (1 / 1000), 1 / 1000, 0, 1],
             [1, 0, 0, 0], [0, 1, 0, 0]], [0, 0, 10, 5])"
  by (simp add: model_defs solver_defs Let_def)


lemma two_source_linalg:
  "linalg_solve [[1 / 1000, - (1 / 1000), 1, 0], [- (1 / 1000), 1 / 1000, 0, 1],
                 [1, 0, 0, 0], [0, 1, 0, 0]] [0, 0, 10, 5]
     = Inr [10, 5, - (1 / 200), 1 / 200]"
  by (simp add: linalg_solve_def eval_nat_numeral pivot_row_def eliminate_def dot_def Let_def)

lemma two_source_solve:
  "\<exists>sol. solve (circuit_solver (make_circuit
       [comp 0 VoltageSource 10 1 0, comp 1 Resistor 1000 1 2, comp 2 VoltageSource 5 2 0] 0))
     = Solved sol"
  unfolding solve_def two_source_system
  by (simp add: two_source_linalg)
     (simp add: package_solution_def model_defs spec_N_def and_then_def
      calculate_component_result_def voltage_at_def)

section \<open>Double precision\<close>

subsection \<open>Rounding to a double\<close>

lemma nearest_even_near:
  assumes "\<bar>y - of_int m\<bar> < 1 / 2"
  shows "nearest_even y = m"
proof (cases "of_int m \<le> y")
  case True
  then have "\<lfloor>y\<rfloor> = m" using assms by (intro floor_unique) auto
  then show ?thesis using assms True by (simp add: nearest_even_def Let_def)
next
  case False
  then have f: "\<lfloor>y\<rfloor> = m - 1" using assms by (intro floor_unique) auto
  have "y - of_int (m - 1) > 1 / 2" using assms False by auto
  then show ?thesis using f by (simp add: nearest_even_def Let_def)
qed

lemma nearest_even_tie:
  assumes "\<bar>y - of_int m\<bar> = 1 / 2" "even m"
  shows "nearest_even y = m"
proof (cases "of_int m \<le> y")
  case True
  then have y: "y = of_int m + 1 / 2" using assms(1) by auto
  then have "\<lfloor>y\<rfloor> = m" by (intro floor_unique) auto
  then show ?thesis using y assms(2) by (simp add: nearest_even_def Let_def)
next
  case False
  then have y: "y = of_int (m - 1) + 1 / 2" using assms(1) by auto
  then have f: "\<lfloor>y\<rfloor> = m - 1" by (intro floor_unique) auto
  have "y - of_int (m - 1) = 1 / 2" using y by simp
  then show ?thesis using f assms(2) by (simp add: nearest_even_def Let_def)
qed

lemma nearest_even_eqI:
  "\<bar>y - of_int m\<bar> < 1 / 2 \<or> (\<bar>y - of_int m\<bar> = 1 / 2 \<and> even m) \<Longrightarrow> nearest_even y = m"
  using nearest_even_near nearest_even_tie by blast


lemma round_to_up:
  "k \<le> n \<Longrightarrow> 2 ^ 52 \<le> \<bar>y * 2 ^ k\<bar> \<Longrightarrow> \<bar>y * 2 ^ k\<bar> < 2 ^ 53 \<Longrightarrow>
     round_to n y = of_int (nearest_even (y * 2 ^ k)) / 2 ^ k"
proof (induction k arbitrary: n y)
  case 0
  then show ?case by (cases n) simp_all
next
  case (Suc k)
  then obtain n' where n: "n = Suc n'" "k \<le> n'" by (cases n) auto
  have p: "(1::real) \<le> 2 ^ k" by simp
  have "\<bar>y\<bar> * 2 * 2 ^ k < 2 ^ 53" using Suc.prems(3) by (simp add: abs_mult mult.assoc)
  moreover have "\<bar>y\<bar> * 2 * 1 \<le> \<bar>y\<bar> * 2 * 2 ^ k" using p by (intro mult_left_mono) auto
  ultimately have small: "\<bar>y\<bar> < 2 ^ 52" by simp
  have "round_to n' (2 * y) = of_int (nearest_even (2 * y * 2 ^ k)) / 2 ^ k"
    using Suc.prems n(2) by (intro Suc.IH) (simp_all add: mult.assoc mult.left_commute)
  then show ?case using small by (simp add: n(1) mult.assoc mult.left_commute)
qed

lemma round_to_down:
  "k \<le> n \<Longrightarrow> 2 ^ 52 \<le> \<bar>y / 2 ^ k\<bar> \<Longrightarrow> \<bar>y / 2 ^ k\<bar> < 2 ^ 53 \<Longrightarrow>
     round_to n y = of_int (nearest_even (y / 2 ^ k)) * 2 ^ k"
proof (induction k arbitrary: n y)
  case 0
  then show ?case by (cases n) simp_all
next
  case (Suc k)
  then obtain n' where n: "n = Suc n'" "k \<le> n'" by (cases n) auto
  have p: "(1::real) \<le> 2 ^ k" by simp
  define c :: real where "c = 2 ^ k"
  have c: "1 \<le> c" by (simp add: c_def)
  have "2 ^ 52 \<le> \<bar>y\<bar> / (2 * c)" using Suc.prems(2) by (simp add: abs_divide c_def)
  then have "2 ^ 52 * (2 * c) \<le> \<bar>y\<bar>" using c by (simp add: pos_le_divide_eq)
  moreover have "(2::real) ^ 52 * (2 * 1) \<le> 2 ^ 52 * (2 * c)" using c by (intro mult_left_mono) auto
  ultimately have big: "2 ^ 53 \<le> \<bar>y\<bar>" by simp
  have "round_to n' (y / 2) = of_int (nearest_even (y / 2 / 2 ^ k)) * 2 ^ k"
    using Suc.prems n(2) by (intro Suc.IH) (simp_all add: field_simps)
  then show ?case using big by (simp add: n(1) field_simps)
qed


lemma fl_upI:
  assumes "k \<le> 1074" "2 ^ 52 \<le> \<bar>x * 2 ^ k\<bar>" "\<bar>x * 2 ^ k\<bar> < 2 ^ 53"
    and "\<bar>x * 2 ^ k - of_int m\<bar> < 1 / 2 \<or> (\<bar>x * 2 ^ k - of_int m\<bar> = 1 / 2 \<and> even m)"
    and "y = of_int m / 2 ^ k"
  shows "fl x = y"
  using round_to_up [OF assms(1-3)] nearest_even_eqI [OF assms(4)] assms(5) by (simp add: fl_def)

lemma fl_downI:
  assumes "k \<le> 1074" "2 ^ 52 \<le> \<bar>x / 2 ^ k\<bar>" "\<bar>x / 2 ^ k\<bar> < 2 ^ 53"
    and "\<bar>x / 2 ^ k - of_int m\<bar> < 1 / 2 \<or> (\<bar>x / 2 ^ k - of_int m\<bar> = 1 / 2 \<and> even m)"
    and "y = of_int m * 2 ^ k"
  shows "fl x = y"
  using round_to_down [OF assms(1-3)] nearest_even_eqI [OF assms(4)] assms(5) by (simp add: fl_def)

subsection \<open>Exact arithmetic is the solver with the identity as rounding\<close>

lemma fops_id [simp]:
  "fadd (\<lambda>x. x) a b = a + b" "fsub (\<lambda>x. x) a b = a - b"
  "fmul (\<lambda>x. x) a b = a * b" "fdiv (\<lambda>x. x) a b = a / b"
  by (simp_all add: fadd_def fsub_def fmul_def fdiv_def)

lemma array_fp_id [simp]:
  "vec_add_fp (\<lambda>x. x) = vec_add" "vec_sub_fp (\<lambda>x. x) = vec_sub"
  "mat_add_fp (\<lambda>x. x) = mat_add" "mat_sub_fp (\<lambda>x. x) = mat_sub"
  by (simp_all add: fun_eq_iff vec_add_fp_def vec_sub_fp_def mat_add_fp_def mat_sub_fp_def
      vec_add_def vec_sub_def mat_add_def mat_sub_def)

lemma stamp_resistor_fp_id [simp]: "stamp_resistor_fp (\<lambda>x. x) = stamp_resistor"
  by (simp add: fun_eq_iff stamp_resistor_fp_def stamp_resistor_def Let_def cong: if_cong)

lemma stamp_conductances_fp_id [simp]:
  "stamp_conductances_fp (\<lambda>x. x) s rs G = stamp_conductances s rs G"
  by (induction rs arbitrary: G) (simp_all add: and_then_def split: sum.splits)

lemma stamp_current_source_fp_id [simp]: "stamp_current_source_fp (\<lambda>x. x) = stamp_current_source"
  by (simp add: fun_eq_iff stamp_current_source_fp_def stamp_current_source_def Let_def cong: if_cong)

lemma stamp_current_sources_fp_id [simp]:
  "stamp_current_sources_fp (\<lambda>x. x) s cs Z = stamp_current_sources s cs Z"
  by (induction cs arbitrary: Z) (simp_all add: and_then_def split: sum.splits)

lemma build_mna_system_fp_id: "build_mna_system_fp (\<lambda>x. x) s = build_mna_system s"
  by (simp add: build_mna_system_fp_def build_mna_system_def Let_def)

lemma eliminate_fp_id [simp]: "eliminate_fp (\<lambda>x. x) = eliminate"
  by (simp add: fun_eq_iff eliminate_fp_def eliminate_def Let_def)

lemma back_substitute_id: "back_substitute (\<lambda>x. x) b cs xs = b - dot cs xs"
proof -
  have "foldr (\<lambda>cx acc. acc - fst cx * snd cx) ps b = b - sum_list (map (\<lambda>cx. fst cx * snd cx) ps)"
    for ps :: "(real \<times> real) list"
    by (induction ps) simp_all
  then show ?thesis
    by (simp add: back_substitute_def dot_def case_prod_unfold)
qed

lemma gauss_fp_id: "gauss_fp (\<lambda>x. x) n rows = gauss n rows"
  by (induction n arbitrary: rows) (simp_all add: Let_def back_substitute_id split: option.splits)

lemma linalg_solve_fp_id: "linalg_solve_fp (\<lambda>x. x) G Z = linalg_solve G Z"
  by (simp add: linalg_solve_fp_def linalg_solve_def gauss_fp_id)

lemma calculate_component_result_fp_id [simp]:
  "calculate_component_result_fp (\<lambda>x. x) = calculate_component_result"
  by (simp add: fun_eq_iff calculate_component_result_fp_def calculate_component_result_def Let_def
      cong: if_cong kind.case_cong option.case_cong)

lemma component_results_fp_id [simp]:
  "component_results_fp (\<lambda>x. x) s cs d I = component_results s cs d I"
  by (induction cs) simp_all

lemma sum_fp_id [simp]: "sum_fp (\<lambda>x. x) ps = sum_list ps"
proof -
  have "foldl (+) a ps = a + sum_list ps" for a :: real
    by (induction ps arbitrary: a) simp_all
  from this [of 0] show ?thesis
    by (simp add: sum_fp_def fadd_def [abs_def])
qed

lemma dot_fp_id [simp]: "dot_fp (\<lambda>x. x) cs xs = dot cs xs"
proof -
  have "foldl (\<lambda>acc cx. acc + fst cx * snd cx) a ps = a + sum_list (map (\<lambda>cx. fst cx * snd cx) ps)"
    for a :: real and ps :: "(real \<times> real) list"
    by (induction ps arbitrary: a) simp_all
  from this [of 0] show ?thesis
    by (simp add: dot_fp_def dot_def case_prod_unfold)
qed

lemma build_matrix_info_fp_id [simp]: "build_matrix_info_fp (\<lambda>x. x) = build_matrix_info"
  by (simp add: fun_eq_iff build_matrix_info_fp_def build_matrix_info_def fsub_def [abs_def] Let_def)

lemma package_solution_fp_id:
  "package_solution_fp (\<lambda>x. x) s V I G Z = package_solution s V I G Z"
  by (simp add: package_solution_fp_def package_solution_def)

lemma solve_fp_id: "solve_fp (\<lambda>x. x) s = solve s"
  by (simp add: solve_fp_def solve_def build_mna_system_fp_id linalg_solve_fp_id
      package_solution_fp_id cong: sum.case_cong)

subsection \<open>Solving in double precision\<close>

lemmas fp_defs =
  build_mna_system_fp_def stamp_resistor_fp_def stamp_current_source_fp_def
  mat_add_fp_def mat_sub_fp_def vec_add_fp_def vec_sub_fp_def

lemmas gauss_fp_defs =
  linalg_solve_fp_def pivot_row_def eliminate_fp_def back_substitute_def Let_def

lemma solve_fp_SolvedI:
  assumes "build_mna_system_fp rd s = Inr (G, Z)"
    and "linalg_solve_fp rd G Z = Inr X"
    and "fill_voltages s 0 (take (num_nodes s) X) [(ref_node s, 0)] = Inr d"
    and "component_results_fp rd s (components (model s)) d (drop (num_nodes s) X) = Inr rs"
  shows "\<exists>sol. solve_fp rd s = Solved sol \<and> voltages sol = d \<and> results sol = rs
           \<and> total_power sol = sum_fp rd (map res_power rs)
           \<and> power_balance sol = (\<bar>total_power sol\<bar> < rd (1 / 10 ^ 9))"
  using assms by (simp add: solve_fp_def package_solution_fp_def and_then_def)

lemma solve_fp_circuitI:
  assumes "build_mna_system_fp rd (circuit_solver m) = Inr (G, Z)"
    and "linalg_solve_fp rd G Z = Inr X"
    and "components m = cs"
    and "take (spec_N m) X = V" and "drop (spec_N m) X = I"
    and "fill_voltages (circuit_solver m) 0 V [(reference_node m, 0)] = Inr d"
    and "component_results_fp rd (circuit_solver m) cs d I = Inr rs"
  shows "\<exists>sol. solve_fp rd (circuit_solver m) = Solved sol \<and> voltages sol = d \<and> results sol = rs
           \<and> total_power sol = sum_fp rd (map res_power rs)
           \<and> power_balance sol = (\<bar>total_power sol\<bar> < rd (1 / 10 ^ 9))"
  using assms by (intro solve_fp_SolvedI [where G = G and Z = Z and X = X]) simp_all


subsection \<open>Four circuits evaluated in double precision\<close>
lemma stiff_values:
  "fl (1 / 1000) = 1152921504606847 / 1152921504606846976"
  "fl (1 / 1000000) = 4722366482869645 / 4722366482869645213696"
proof -
  show "fl (1 / 1000) = 1152921504606847 / 1152921504606846976"
    by (rule fl_upI [where k = 62 and m = 4611686018427388]) simp_all
  show "fl (1 / 1000000) = 4722366482869645 / 4722366482869645213696"
    by (rule fl_upI [where k = 72 and m = 4722366482869645]) simp_all
qed

lemma fl_billionth: "fl (1 / 1000000000) = 4835703278458517 / 4835703278458516698824704"
  by (rule fl_upI [where k = 82 and m = 4835703278458517]) simp_all

lemma parallel_pair_ops:
  "fdiv fl 1 300000 = 3935305402391371 / 1180591620717411303424"
  "fadd fl 0 (3935305402391371 / 1180591620717411303424) = 3935305402391371 / 1180591620717411303424"
  "fdiv fl 1 700000 = 3373118916335461 / 2361183241434822606848"
  "fadd fl (3935305402391371 / 1180591620717411303424) (3373118916335461 / 2361183241434822606848) = 2810932430279551 / 590295810358705651712"
  "fadd fl 0 100 = 100"
  "fdiv fl 100 (2810932430279551 / 590295810358705651712) = 5637144575999999 / 268435456"
  "fsub fl 0 (5637144575999999 / 268435456) = - (5637144575999999 / 268435456)"
  "fmul fl (- (5637144575999999 / 268435456)) 100 = - (4404019199999999 / 2097152)"
  "fadd fl 0 (- (4404019199999999 / 2097152)) = - (4404019199999999 / 2097152)"
  "fsub fl (5637144575999999 / 268435456) 0 = 5637144575999999 / 268435456"
  "fdiv fl (5637144575999999 / 268435456) 300000 = 4925812092436479 / 70368744177664"
  "fmul fl (5637144575999999 / 268435456) (4925812092436479 / 70368744177664) = 3082813439999999 / 2097152"
  "fadd fl (- (4404019199999999 / 2097152)) (3082813439999999 / 2097152) = - 630000000"
  "fdiv fl (5637144575999999 / 268435456) 700000 = 8444249301319679 / 281474976710656"
  "fmul fl (5637144575999999 / 268435456) (8444249301319679 / 281474976710656) = 2642411519999999 / 4194304"
  "fadd fl (- 630000000) (2642411519999999 / 4194304) = - (1 / 4194304)"
proof -
  show "fdiv fl 1 300000 = 3935305402391371 / 1180591620717411303424"
    unfolding fdiv_def by (rule fl_upI [where k = 71 and m = 7870610804782742]) simp_all
  show "fadd fl 0 (3935305402391371 / 1180591620717411303424) = 3935305402391371 / 1180591620717411303424"
    unfolding fadd_def by (rule fl_upI [where k = 71 and m = 7870610804782742]) simp_all
  show "fdiv fl 1 700000 = 3373118916335461 / 2361183241434822606848"
    unfolding fdiv_def by (rule fl_upI [where k = 72 and m = 6746237832670922]) simp_all
  show "fadd fl (3935305402391371 / 1180591620717411303424) (3373118916335461 / 2361183241434822606848) = 2810932430279551 / 590295810358705651712"
    unfolding fadd_def by (rule fl_upI [where k = 70 and m = 5621864860559102]) simp_all
  show "fadd fl 0 100 = 100"
    unfolding fadd_def by (rule fl_upI [where k = 46 and m = 7036874417766400]) simp_all
  show "fdiv fl 100 (2810932430279551 / 590295810358705651712) = 5637144575999999 / 268435456"
    unfolding fdiv_def by (rule fl_upI [where k = 28 and m = 5637144575999999]) simp_all
  show "fsub fl 0 (5637144575999999 / 268435456) = - (5637144575999999 / 268435456)"
    unfolding fsub_def by (rule fl_upI [where k = 28 and m = "- 5637144575999999"]) simp_all
  show "fmul fl (- (5637144575999999 / 268435456)) 100 = - (4404019199999999 / 2097152)"
    unfolding fmul_def by (rule fl_upI [where k = 22 and m = "- 8808038399999998"]) simp_all
  show "fadd fl 0 (- (4404019199999999 / 2097152)) = - (4404019199999999 / 2097152)"
    unfolding fadd_def by (rule fl_upI [where k = 22 and m = "- 8808038399999998"]) simp_all
  show "fsub fl (5637144575999999 / 268435456) 0 = 5637144575999999 / 268435456"
    unfolding fsub_def by (rule fl_upI [where k = 28 and m = 5637144575999999]) simp_all
  show "fdiv fl (5637144575999999 / 268435456) 300000 = 4925812092436479 / 70368744177664"
    unfolding fdiv_def by (rule fl_upI [where k = 46 and m = 4925812092436479]) simp_all
  show "fmul fl (5637144575999999 / 268435456) (4925812092436479 / 70368744177664) = 3082813439999999 / 2097152"
    unfolding fmul_def by (rule fl_upI [where k = 22 and m = 6165626879999998]) simp_all
  show "fadd fl (- (4404019199999999 / 2097152)) (3082813439999999 / 2097152) = - 630000000"
    unfolding fadd_def by (rule fl_upI [where k = 23 and m = "- 5284823040000000"]) simp_all
  show "fdiv fl (5637144575999999 / 268435456) 700000 = 8444249301319679 / 281474976710656"
    unfolding fdiv_def by (rule fl_upI [where k = 48 and m = 8444249301319679]) simp_all
  show "fmul fl (5637144575999999 / 268435456) (8444249301319679 / 281474976710656) = 2642411519999999 / 4194304"
    unfolding fmul_def by (rule fl_upI [where k = 23 and m = 5284823039999998]) simp_all
  show "fadd fl (- 630000000) (2642411519999999 / 4194304) = - (1 / 4194304)"
    unfolding fadd_def by (rule fl_upI [where k = 74 and m = "- 4503599627370496"]) simp_all
qed

lemma parallel_pair_system:
  "build_mna_system_fp fl (circuit_solver (make_circuit parallel_pair 0))
     = Inr ([[2810932430279551 / 590295810358705651712]],
            [100])"
  by (simp add: parallel_pair_def model_defs solver_defs fp_defs Let_def parallel_pair_ops)

lemma parallel_pair_linalg:
  "linalg_solve_fp fl [[2810932430279551 / 590295810358705651712]]
       [100]
     = Inr [5637144575999999 / 268435456]"
  by (simp add: gauss_fp_defs eval_nat_numeral parallel_pair_ops)

lemma parallel_pair_results:
  "component_results_fp fl (circuit_solver (make_circuit parallel_pair 0)) parallel_pair
       [(0, 0), (1, 5637144575999999 / 268435456)] []
     = Inr [\<lparr>res_id = 0, res_type = ''Current Source'', res_value = 100, res_node1 = 0, res_node2 = 1,
          res_voltage = - (5637144575999999 / 268435456), res_current = 100,
          res_power = - (4404019199999999 / 2097152)\<rparr>,
        \<lparr>res_id = 1, res_type = ''Resistor'', res_value = 300000, res_node1 = 1, res_node2 = 0,
          res_voltage = 5637144575999999 / 268435456, res_current = 4925812092436479 / 70368744177664,
          res_power = 3082813439999999 / 2097152\<rparr>,
        \<lparr>res_id = 2, res_type = ''Resistor'', res_value = 700000, res_node1 = 1, res_node2 = 0,
          res_voltage = 5637144575999999 / 268435456, res_current = 8444249301319679 / 281474976710656,
          res_power = 2642411519999999 / 4194304\<rparr>]"
  by (simp add: parallel_pair_def model_defs circuit_solver_def calculate_component_result_fp_def
      voltage_at_def type_name_def and_then_def Let_def parallel_pair_ops)

lemma parallel_pair_total:
  "sum_fp fl [- (4404019199999999 / 2097152), 3082813439999999 / 2097152, 2642411519999999 / 4194304] = - (1 / 4194304)"
  by (simp add: sum_fp_def parallel_pair_ops)

lemma parallel_pair_solve:
  "\<exists>sol. solve_fp fl (circuit_solver (make_circuit parallel_pair 0)) = Solved sol
     \<and> voltages sol = [(0, 0), (1, 5637144575999999 / 268435456)]
     \<and> results sol = [\<lparr>res_id = 0, res_type = ''Current Source'', res_value = 100, res_node1 = 0, res_node2 = 1,
          res_voltage = - (5637144575999999 / 268435456), res_current = 100,
          res_power = - (4404019199999999 / 2097152)\<rparr>,
        \<lparr>res_id = 1, res_type = ''Resistor'', res_value = 300000, res_node1 = 1, res_node2 = 0,
          res_voltage = 5637144575999999 / 268435456, res_current = 4925812092436479 / 70368744177664,
          res_power = 3082813439999999 / 2097152\<rparr>,
        \<lparr>res_id = 2, res_type = ''Resistor'', res_value = 700000, res_node1 = 1, res_node2 = 0,
          res_voltage = 5637144575999999 / 268435456, res_current = 8444249301319679 / 281474976710656,
          res_power = 2642411519999999 / 4194304\<rparr>]
     \<and> total_power sol = - (1 / 4194304)
     \<and> power_balance sol = (\<bar>total_power sol\<bar> < fl (1 / 10 ^ 9))"
proof -
  have c: "components (make_circuit parallel_pair 0) = parallel_pair"
    by (simp add: parallel_pair_def model_defs)
  have v: "take (spec_N (make_circuit parallel_pair 0)) [5637144575999999 / 268435456] = [5637144575999999 / 268435456]"
    by (simp add: parallel_pair_def model_defs spec_N_def)
  have i: "drop (spec_N (make_circuit parallel_pair 0)) [5637144575999999 / 268435456] = []"
    by (simp add: parallel_pair_def model_defs spec_N_def)
  have d: "fill_voltages (circuit_solver (make_circuit parallel_pair 0)) 0 [5637144575999999 / 268435456]
        [(reference_node (make_circuit parallel_pair 0), 0)]
      = Inr [(0, 0), (1, 5637144575999999 / 268435456)]"
    by (simp add: parallel_pair_def model_defs circuit_solver_def)
  from solve_fp_circuitI [OF parallel_pair_system parallel_pair_linalg c v i d parallel_pair_results] obtain sol where
    s: "solve_fp fl (circuit_solver (make_circuit parallel_pair 0)) = Solved sol"
       "voltages sol = [(0, 0), (1, 5637144575999999 / 268435456)]"
       "results sol = [\<lparr>res_id = 0, res_type = ''Current Source'', res_value = 100, res_node1 = 0, res_node2 = 1,
          res_voltage = - (5637144575999999 / 268435456), res_current = 100,
          res_power = - (4404019199999999 / 2097152)\<rparr>,
        \<lparr>res_id = 1, res_type = ''Resistor'', res_value = 300000, res_node1 = 1, res_node2 = 0,
          res_voltage = 5637144575999999 / 268435456, res_current = 4925812092436479 / 70368744177664,
          res_power = 3082813439999999 / 2097152\<rparr>,
        \<lparr>res_id = 2, res_type = ''Resistor'', res_value = 700000, res_node1 = 1, res_node2 = 0,
          res_voltage = 5637144575999999 / 268435456, res_current = 8444249301319679 / 281474976710656,
          res_power = 2642411519999999 / 4194304\<rparr>]"
    and t: "total_power sol = sum_fp fl (map res_power [\<lparr>res_id = 0, res_type = ''Current Source'', res_value = 100, res_node1 = 0, res_node2 = 1,
          res_voltage = - (5637144575999999 / 268435456), res_current = 100,
          res_power = - (4404019199999999 / 2097152)\<rparr>,
        \<lparr>res_id = 1, res_type = ''Resistor'', res_value = 300000, res_node1 = 1, res_node2 = 0,
          res_voltage = 5637144575999999 / 268435456, res_current = 4925812092436479 / 70368744177664,
          res_power = 3082813439999999 / 2097152\<rparr>,
        \<lparr>res_id = 2, res_type = ''Resistor'', res_value = 700000, res_node1 = 1, res_node2 = 0,
          res_voltage = 5637144575999999 / 268435456, res_current = 8444249301319679 / 281474976710656,
          res_power = 2642411519999999 / 4194304\<rparr>])"
    and b: "power_balance sol = (\<bar>total_power sol\<bar> < fl (1 / 10 ^ 9))"
    by blast
  have "total_power sol = - (1 / 4194304)"
    unfolding t by (simp add: parallel_pair_total)
  then show ?thesis
    by (intro exI [of _ sol] conjI s b)
qed

lemma parallel_pair_summary:
  "\<exists>sol. solve_fp fl (circuit_solver (make_circuit parallel_pair 0)) = Solved sol
     \<and> voltages sol = [(0, 0), (1, 5637144575999999 / 268435456)]
     \<and> map res_id (results sol) = [0, 1, 2]
     \<and> map res_voltage (results sol) = [- (5637144575999999 / 268435456), 5637144575999999 / 268435456, 5637144575999999 / 268435456]
     \<and> map res_current (results sol) = [100, 4925812092436479 / 70368744177664, 8444249301319679 / 281474976710656]
     \<and> map res_power (results sol) = [- (4404019199999999 / 2097152), 3082813439999999 / 2097152, 2642411519999999 / 4194304]
     \<and> total_power sol = - (1 / 4194304)
     \<and> \<not> power_balance sol"
proof -
  from parallel_pair_solve obtain sol where
    s: "solve_fp fl (circuit_solver (make_circuit parallel_pair 0)) = Solved sol"
       "voltages sol = [(0, 0), (1, 5637144575999999 / 268435456)]"
       "total_power sol = - (1 / 4194304)"
    and r: "results sol = [\<lparr>res_id = 0, res_type = ''Current Source'', res_value = 100, res_node1 = 0, res_node2 = 1,
          res_voltage = - (5637144575999999 / 268435456), res_current = 100,
          res_power = - (4404019199999999 / 2097152)\<rparr>,
        \<lparr>res_id = 1, res_type = ''Resistor'', res_value = 300000, res_node1 = 1, res_node2 = 0,
          res_voltage = 5637144575999999 / 268435456, res_current = 4925812092436479 / 70368744177664,
          res_power = 3082813439999999 / 2097152\<rparr>,
        \<lparr>res_id = 2, res_type = ''Resistor'', res_value = 700000, res_node1 = 1, res_node2 = 0,
          res_voltage = 5637144575999999 / 268435456, res_current = 8444249301319679 / 281474976710656,
          res_power = 2642411519999999 / 4194304\<rparr>]"
    and b: "power_balance sol = (\<bar>total_power sol\<bar> < fl (1 / 10 ^ 9))"
    by (elim exE conjE) (rule that; assumption)
  have f: "\<not> power_balance sol"
    unfolding b s(3) by (simp add: fl_billionth)
  have m: "map res_id (results sol) = [0, 1, 2]"
    "map res_voltage (results sol) = [- (5637144575999999 / 268435456), 5637144575999999 / 268435456, 5637144575999999 / 268435456]"
    "map res_current (results sol) = [100, 4925812092436479 / 70368744177664, 8444249301319679 / 281474976710656]"
    "map res_power (results sol) = [- (4404019199999999 / 2097152), 3082813439999999 / 2097152, 2642411519999999 / 4194304]"
    by (simp_all add: r)
  show ?thesis
    by (intro exI [of _ sol] conjI s m f)
qed

lemma ladder_ops:
  "fdiv fl 1 1000000 = 4722366482869645 / 4722366482869645213696"
  "fadd fl 0 (4722366482869645 / 4722366482869645213696) = 4722366482869645 / 4722366482869645213696"
  "fdiv fl 1 1 = 1"
  "fadd fl (4722366482869645 / 4722366482869645213696) 1 = 4503604130970123 / 4503599627370496"
  "fadd fl 0 1 = 1"
  "fsub fl 0 1 = - 1"
  "fdiv fl 1 1000 = 1152921504606847 / 1152921504606846976"
  "fadd fl (4503604130970123 / 4503599627370496) (1152921504606847 / 1152921504606846976) = 4508107730597493 / 4503599627370496"
  "fadd fl 1 (4722366482869645 / 4722366482869645213696) = 4503604130970123 / 4503599627370496"
  "fsub fl 0 100 = - 100"
  "fdiv fl (- 1) (4508107730597493 / 4503599627370496) = - (8998192064484445 / 9007199254740992)"
  "fmul fl (- (8998192064484445 / 9007199254740992)) (- 1) = 8998192064484445 / 9007199254740992"
  "fsub fl (4503604130970123 / 4503599627370496) (8998192064484445 / 9007199254740992) = 9016197455801 / 9007199254740992"
  "fmul fl (- (8998192064484445 / 9007199254740992)) (- 100) = 7029837550378473 / 70368744177664"
  "fsub fl 0 (7029837550378473 / 70368744177664) = - (7029837550378473 / 70368744177664)"
  "fdiv fl (- (7029837550378473 / 70368744177664)) (9016197455801 / 9007199254740992) = - (1714556089949963 / 17179869184)"
  "fmul fl (- 1) (- (1714556089949963 / 17179869184)) = 1714556089949963 / 17179869184"
  "fsub fl (- 100) (1714556089949963 / 17179869184) = - (1716274076868363 / 17179869184)"
  "fdiv fl (- (1716274076868363 / 17179869184)) (4508107730597493 / 4503599627370496) = - (6858231218024211 / 68719476736)"
  "fsub fl (- (6858231218024211 / 68719476736)) 0 = - (6858231218024211 / 68719476736)"
  "fdiv fl (- (6858231218024211 / 68719476736)) 1000000 = - (7191376657670955 / 72057594037927936)"
  "fmul fl (- (6858231218024211 / 68719476736)) (- (7191376657670955 / 72057594037927936)) = 2737816856235839 / 274877906944"
  "fadd fl 0 (2737816856235839 / 274877906944) = 2737816856235839 / 274877906944"
  "fsub fl (- (6858231218024211 / 68719476736)) (- (1714556089949963 / 17179869184)) = - (6858224359 / 68719476736)"
  "fdiv fl (- (6858224359 / 68719476736)) 1 = - (6858224359 / 68719476736)"
  "fmul fl (- (6858224359 / 68719476736)) (- (6858224359 / 68719476736)) = 717700826391311 / 72057594037927936"
  "fadd fl (2737816856235839 / 274877906944) (717700826391311 / 72057594037927936) = 2737819594047219 / 274877906944"
  "fdiv fl (- (6858231218024211 / 68719476736)) 1000 = - (877853595907099 / 8796093022208)"
  "fmul fl (- (6858231218024211 / 68719476736)) (- (877853595907099 / 8796093022208)) = 5347298547335623 / 536870912"
  "fadd fl (2737819594047219 / 274877906944) (5347298547335623 / 536870912) = 2676322925615123 / 268435456"
  "fsub fl (- (1714556089949963 / 17179869184)) 0 = - (1714556089949963 / 17179869184)"
  "fdiv fl (- (1714556089949963 / 17179869184)) 1000000 = - (3595684733150745 / 36028797018963968)"
  "fmul fl (- (1714556089949963 / 17179869184)) (- (3595684733150745 / 36028797018963968)) = 2737811380610341 / 274877906944"
  "fadd fl (2676322925615123 / 268435456) (2737811380610341 / 274877906944) = 5357993139083001 / 536870912"
  "fmul fl (- (6858231218024211 / 68719476736)) 100 = - (5357993139081415 / 536870912)"
  "fadd fl (5357993139083001 / 536870912) (- (5357993139081415 / 536870912)) = 793 / 268435456"
proof -
  show "fdiv fl 1 1000000 = 4722366482869645 / 4722366482869645213696"
    unfolding fdiv_def by (rule fl_upI [where k = 72 and m = 4722366482869645]) simp_all
  show "fadd fl 0 (4722366482869645 / 4722366482869645213696) = 4722366482869645 / 4722366482869645213696"
    unfolding fadd_def by (rule fl_upI [where k = 72 and m = 4722366482869645]) simp_all
  show "fdiv fl 1 1 = 1"
    unfolding fdiv_def by (rule fl_upI [where k = 52 and m = 4503599627370496]) simp_all
  show "fadd fl (4722366482869645 / 4722366482869645213696) 1 = 4503604130970123 / 4503599627370496"
    unfolding fadd_def by (rule fl_upI [where k = 52 and m = 4503604130970123]) simp_all
  show "fadd fl 0 1 = 1"
    unfolding fadd_def by (rule fl_upI [where k = 52 and m = 4503599627370496]) simp_all
  show "fsub fl 0 1 = - 1"
    unfolding fsub_def by (rule fl_upI [where k = 52 and m = "- 4503599627370496"]) simp_all
  show "fdiv fl 1 1000 = 1152921504606847 / 1152921504606846976"
    unfolding fdiv_def by (rule fl_upI [where k = 62 and m = 4611686018427388]) simp_all
  show "fadd fl (4503604130970123 / 4503599627370496) (1152921504606847 / 1152921504606846976) = 4508107730597493 / 4503599627370496"
    unfolding fadd_def by (rule fl_upI [where k = 52 and m = 4508107730597493]) simp_all
  show "fadd fl 1 (4722366482869645 / 4722366482869645213696) = 4503604130970123 / 4503599627370496"
    unfolding fadd_def by (rule fl_upI [where k = 52 and m = 4503604130970123]) simp_all
  show "fsub fl 0 100 = - 100"
    unfolding fsub_def by (rule fl_upI [where k = 46 and m = "- 7036874417766400"]) simp_all
  show "fdiv fl (- 1) (4508107730597493 / 4503599627370496) = - (8998192064484445 / 9007199254740992)"
    unfolding fdiv_def by (rule fl_upI [where k = 53 and m = "- 8998192064484445"]) simp_all
  show "fmul fl (- (8998192064484445 / 9007199254740992)) (- 1) = 8998192064484445 / 9007199254740992"
    unfolding fmul_def by (rule fl_upI [where k = 53 and m = 8998192064484445]) simp_all
  show "fsub fl (4503604130970123 / 4503599627370496) (8998192064484445 / 9007199254740992) = 9016197455801 / 9007199254740992"
    unfolding fsub_def by (rule fl_upI [where k = 62 and m = 4616293097370112]) simp_all
  show "fmul fl (- (8998192064484445 / 9007199254740992)) (- 100) = 7029837550378473 / 70368744177664"
    unfolding fmul_def by (rule fl_upI [where k = 46 and m = 7029837550378473]) simp_all
  show "fsub fl 0 (7029837550378473 / 70368744177664) = - (7029837550378473 / 70368744177664)"
    unfolding fsub_def by (rule fl_upI [where k = 46 and m = "- 7029837550378473"]) simp_all
  show "fdiv fl (- (7029837550378473 / 70368744177664)) (9016197455801 / 9007199254740992) = - (1714556089949963 / 17179869184)"
    unfolding fdiv_def by (rule fl_upI [where k = 36 and m = "- 6858224359799852"]) simp_all
  show "fmul fl (- 1) (- (1714556089949963 / 17179869184)) = 1714556089949963 / 17179869184"
    unfolding fmul_def by (rule fl_upI [where k = 36 and m = 6858224359799852]) simp_all
  show "fsub fl (- 100) (1714556089949963 / 17179869184) = - (1716274076868363 / 17179869184)"
    unfolding fsub_def by (rule fl_upI [where k = 36 and m = "- 6865096307473452"]) simp_all
  show "fdiv fl (- (1716274076868363 / 17179869184)) (4508107730597493 / 4503599627370496) = - (6858231218024211 / 68719476736)"
    unfolding fdiv_def by (rule fl_upI [where k = 36 and m = "- 6858231218024211"]) simp_all
  show "fsub fl (- (6858231218024211 / 68719476736)) 0 = - (6858231218024211 / 68719476736)"
    unfolding fsub_def by (rule fl_upI [where k = 36 and m = "- 6858231218024211"]) simp_all
  show "fdiv fl (- (6858231218024211 / 68719476736)) 1000000 = - (7191376657670955 / 72057594037927936)"
    unfolding fdiv_def by (rule fl_upI [where k = 56 and m = "- 7191376657670955"]) simp_all
  show "fmul fl (- (6858231218024211 / 68719476736)) (- (7191376657670955 / 72057594037927936)) = 2737816856235839 / 274877906944"
    unfolding fmul_def by (rule fl_upI [where k = 39 and m = 5475633712471678]) simp_all
  show "fadd fl 0 (2737816856235839 / 274877906944) = 2737816856235839 / 274877906944"
    unfolding fadd_def by (rule fl_upI [where k = 39 and m = 5475633712471678]) simp_all
  show "fsub fl (- (6858231218024211 / 68719476736)) (- (1714556089949963 / 17179869184)) = - (6858224359 / 68719476736)"
    unfolding fsub_def by (rule fl_upI [where k = 56 and m = "- 7191369465462784"]) simp_all
  show "fdiv fl (- (6858224359 / 68719476736)) 1 = - (6858224359 / 68719476736)"
    unfolding fdiv_def by (rule fl_upI [where k = 56 and m = "- 7191369465462784"]) simp_all
  show "fmul fl (- (6858224359 / 68719476736)) (- (6858224359 / 68719476736)) = 717700826391311 / 72057594037927936"
    unfolding fmul_def by (rule fl_upI [where k = 59 and m = 5741606611130488]) simp_all
  show "fadd fl (2737816856235839 / 274877906944) (717700826391311 / 72057594037927936) = 2737819594047219 / 274877906944"
    unfolding fadd_def by (rule fl_upI [where k = 39 and m = 5475639188094438]) simp_all
  show "fdiv fl (- (6858231218024211 / 68719476736)) 1000 = - (877853595907099 / 8796093022208)"
    unfolding fdiv_def by (rule fl_upI [where k = 46 and m = "- 7022828767256792"]) simp_all
  show "fmul fl (- (6858231218024211 / 68719476736)) (- (877853595907099 / 8796093022208)) = 5347298547335623 / 536870912"
    unfolding fmul_def by (rule fl_upI [where k = 29 and m = 5347298547335623]) simp_all
  show "fadd fl (2737819594047219 / 274877906944) (5347298547335623 / 536870912) = 2676322925615123 / 268435456"
    unfolding fadd_def by (rule fl_upI [where k = 29 and m = 5352645851230246]) simp_all
  show "fsub fl (- (1714556089949963 / 17179869184)) 0 = - (1714556089949963 / 17179869184)"
    unfolding fsub_def by (rule fl_upI [where k = 36 and m = "- 6858224359799852"]) simp_all
  show "fdiv fl (- (1714556089949963 / 17179869184)) 1000000 = - (3595684733150745 / 36028797018963968)"
    unfolding fdiv_def by (rule fl_upI [where k = 56 and m = "- 7191369466301490"]) simp_all
  show "fmul fl (- (1714556089949963 / 17179869184)) (- (3595684733150745 / 36028797018963968)) = 2737811380610341 / 274877906944"
    unfolding fmul_def by (rule fl_upI [where k = 39 and m = 5475622761220682]) simp_all
  show "fadd fl (2676322925615123 / 268435456) (2737811380610341 / 274877906944) = 5357993139083001 / 536870912"
    unfolding fadd_def by (rule fl_upI [where k = 29 and m = 5357993139083001]) simp_all
  show "fmul fl (- (6858231218024211 / 68719476736)) 100 = - (5357993139081415 / 536870912)"
    unfolding fmul_def by (rule fl_upI [where k = 29 and m = "- 5357993139081415"]) simp_all
  show "fadd fl (5357993139083001 / 536870912) (- (5357993139081415 / 536870912)) = 793 / 268435456"
    unfolding fadd_def by (rule fl_upI [where k = 71 and m = 6975301766610944]) simp_all
qed

lemma ladder_system:
  "build_mna_system_fp fl (circuit_solver (make_circuit ladder 0))
     = Inr ([[4508107730597493 / 4503599627370496, - 1], [- 1, 4503604130970123 / 4503599627370496]],
            [- 100, 0])"
  by (simp add: ladder_def model_defs solver_defs fp_defs Let_def ladder_ops)

lemma ladder_linalg:
  "linalg_solve_fp fl [[4508107730597493 / 4503599627370496, - 1], [- 1, 4503604130970123 / 4503599627370496]]
       [- 100, 0]
     = Inr [- (6858231218024211 / 68719476736), - (1714556089949963 / 17179869184)]"
  by (simp add: gauss_fp_defs eval_nat_numeral ladder_ops)

lemma ladder_results:
  "component_results_fp fl (circuit_solver (make_circuit ladder 0)) ladder
       [(0, 0), (1, - (6858231218024211 / 68719476736)), (2, - (1714556089949963 / 17179869184))] []
     = Inr [\<lparr>res_id = 0, res_type = ''Resistor'', res_value = 1000000, res_node1 = 1, res_node2 = 0,
          res_voltage = - (6858231218024211 / 68719476736), res_current = - (7191376657670955 / 72057594037927936),
          res_power = 2737816856235839 / 274877906944\<rparr>,
        \<lparr>res_id = 1, res_type = ''Resistor'', res_value = 1, res_node1 = 1, res_node2 = 2,
          res_voltage = - (6858224359 / 68719476736), res_current = - (6858224359 / 68719476736),
          res_power = 717700826391311 / 72057594037927936\<rparr>,
        \<lparr>res_id = 2, res_type = ''Resistor'', res_value = 1000, res_node1 = 1, res_node2 = 0,
          res_voltage = - (6858231218024211 / 68719476736), res_current = - (877853595907099 / 8796093022208),
          res_power = 5347298547335623 / 536870912\<rparr>,
        \<lparr>res_id = 3, res_type = ''Resistor'', res_value = 1000000, res_node1 = 2, res_node2 = 0,
          res_voltage = - (1714556089949963 / 17179869184), res_current = - (3595684733150745 / 36028797018963968),
          res_power = 2737811380610341 / 274877906944\<rparr>,
        \<lparr>res_id = 4, res_type = ''Current Source'', res_value = 100, res_node1 = 1, res_node2 = 0,
          res_voltage = - (6858231218024211 / 68719476736), res_current = 100,
          res_power = - (5357993139081415 / 536870912)\<rparr>]"
  by (simp add: ladder_def model_defs circuit_solver_def calculate_component_result_fp_def
      voltage_at_def type_name_def and_then_def Let_def ladder_ops)

lemma ladder_total:
  "sum_fp fl [2737816856235839 / 274877906944, 717700826391311 / 72057594037927936, 5347298547335623 / 536870912, 2737811380610341 / 274877906944, - (5357993139081415 / 536870912)] = 793 / 268435456"
  by (simp add: sum_fp_def ladder_ops)

lemma ladder_solve:
  "\<exists>sol. solve_fp fl (circuit_solver (make_circuit ladder 0)) = Solved sol
     \<and> voltages sol = [(0, 0), (1, - (6858231218024211 / 68719476736)), (2, - (1714556089949963 / 17179869184))]
     \<and> results sol = [\<lparr>res_id = 0, res_type = ''Resistor'', res_value = 1000000, res_node1 = 1, res_node2 = 0,
          res_voltage = - (6858231218024211 / 68719476736), res_current = - (7191376657670955 / 72057594037927936),
          res_power = 2737816856235839 / 274877906944\<rparr>,
        \<lparr>res_id = 1, res_type = ''Resistor'', res_value = 1, res_node1 = 1, res_node2 = 2,
          res_voltage = - (6858224359 / 68719476736), res_current = - (6858224359 / 68719476736),
          res_power = 717700826391311 / 72057594037927936\<rparr>,
        \<lparr>res_id = 2, res_type = ''Resistor'', res_value = 1000, res_node1 = 1, res_node2 = 0,
          res_voltage = - (6858231218024211 / 68719476736), res_current = - (877853595907099 / 8796093022208),
          res_power = 5347298547335623 / 536870912\<rparr>,
        \<lparr>res_id = 3, res_type = ''Resistor'', res_value = 1000000, res_node1 = 2, res_node2 = 0,
          res_voltage = - (1714556089949963 / 17179869184), res_current = - (3595684733150745 / 36028797018963968),
          res_power = 2737811380610341 / 274877906944\<rparr>,
        \<lparr>res_id = 4, res_type = ''Current Source'', res_value = 100, res_node1 = 1, res_node2 = 0,
          res_voltage = - (6858231218024211 / 68719476736), res_current = 100,
          res_power = - (5357993139081415 / 536870912)\<rparr>]
     \<and> total_power sol = 793 / 268435456
     \<and> power_balance sol = (\<bar>total_power sol\<bar> < fl (1 / 10 ^ 9))"
proof -
  have c: "components (make_circuit ladder 0) = ladder"
    by (simp add: ladder_def model_defs)
  have v: "take (spec_N (make_circuit ladder 0)) [- (6858231218024211 / 68719476736), - (1714556089949963 / 17179869184)] = [- (6858231218024211 / 68719476736), - (1714556089949963 / 17179869184)]"
    by (simp add: ladder_def model_defs spec_N_def)
  have i: "drop (spec_N (make_circuit ladder 0)) [- (6858231218024211 / 68719476736), - (1714556089949963 / 17179869184)] = []"
    by (simp add: ladder_def model_defs spec_N_def)
  have d: "fill_voltages (circuit_solver (make_circuit ladder 0)) 0 [- (6858231218024211 / 68719476736), - (1714556089949963 / 17179869184)]
        [(reference_node (make_circuit ladder 0), 0)]
      = Inr [(0, 0), (1, - (6858231218024211 / 68719476736)), (2, - (1714556089949963 / 17179869184))]"
    by (simp add: ladder_def model_defs circuit_solver_def)
  from solve_fp_circuitI [OF ladder_system ladder_linalg c v i d ladder_results] obtain sol where
    s: "solve_fp fl (circuit_solver (make_circuit ladder 0)) = Solved sol"
       "voltages sol = [(0, 0), (1, - (6858231218024211 / 68719476736)), (2, - (1714556089949963 / 17179869184))]"
       "results sol = [\<lparr>res_id = 0, res_type = ''Resistor'', res_value = 1000000, res_node1 = 1, res_node2 = 0,
          res_voltage = - (6858231218024211 / 68719476736), res_current = - (7191376657670955 / 72057594037927936),
          res_power = 2737816856235839 / 274877906944\<rparr>,
        \<lparr>res_id = 1, res_type = ''Resistor'', res_value = 1, res_node1 = 1, res_node2 = 2,
          res_voltage = - (6858224359 / 68719476736), res_current = - (6858224359 / 68719476736),
          res_power = 717700826391311 / 72057594037927936\<rparr>,
        \<lparr>res_id = 2, res_type = ''Resistor'', res_value = 1000, res_node1 = 1, res_node2 = 0,
          res_voltage = - (6858231218024211 / 68719476736), res_current = - (877853595907099 / 8796093022208),
          res_power = 5347298547335623 / 536870912\<rparr>,
        \<lparr>res_id = 3, res_type = ''Resistor'', res_value = 1000000, res_node1 = 2, res_node2 = 0,
          res_voltage = - (1714556089949963 / 17179869184), res_current = - (3595684733150745 / 36028797018963968),
          res_power = 2737811380610341 / 274877906944\<rparr>,
        \<lparr>res_id = 4, res_type = ''Current Source'', res_value = 100, res_node1 = 1, res_node2 = 0,
          res_voltage = - (6858231218024211 / 68719476736), res_current = 100,
          res_power = - (5357993139081415 / 536870912)\<rparr>]"
    and t: "total_power sol = sum_fp fl (map res_power [\<lparr>res_id = 0, res_type = ''Resistor'', res_value = 1000000, res_node1 = 1, res_node2 = 0,
          res_voltage = - (6858231218024211 / 68719476736), res_current = - (7191376657670955 / 72057594037927936),
          res_power = 2737816856235839 / 274877906944\<rparr>,
        \<lparr>res_id = 1, res_type = ''Resistor'', res_value = 1, res_node1 = 1, res_node2 = 2,
          res_voltage = - (6858224359 / 68719476736), res_current = - (6858224359 / 68719476736),
          res_power = 717700826391311 / 72057594037927936\<rparr>,
        \<lparr>res_id = 2, res_type = ''Resistor'', res_value = 1000, res_node1 = 1, res_node2 = 0,
          res_voltage = - (6858231218024211 / 68719476736), res_current = - (877853595907099 / 8796093022208),
          res_power = 5347298547335623 / 536870912\<rparr>,
        \<lparr>res_id = 3, res_type = ''Resistor'', res_value = 1000000, res_node1 = 2, res_node2 = 0,
          res_voltage = - (1714556089949963 / 17179869184), res_current = - (3595684733150745 / 36028797018963968),
          res_power = 2737811380610341 / 274877906944\<rparr>,
        \<lparr>res_id = 4, res_type = ''Current Source'', res_value = 100, res_node1 = 1, res_node2 = 0,
          res_voltage = - (6858231218024211 / 68719476736), res_current = 100,
          res_power = - (5357993139081415 / 536870912)\<rparr>])"
    and b: "power_balance sol = (\<bar>total_power sol\<bar> < fl (1 / 10 ^ 9))"
    by blast
  have "total_power sol = 793 / 268435456"
    unfolding t by (simp add: ladder_total)
  then show ?thesis
    by (intro exI [of _ sol] conjI s b)
qed

lemma ladder_summary:
  "\<exists>sol. solve_fp fl (circuit_solver (make_circuit ladder 0)) = Solved sol
     \<and> voltages sol = [(0, 0), (1, - (6858231218024211 / 68719476736)), (2, - (1714556089949963 / 17179869184))]
     \<and> map res_id (results sol) = [0, 1, 2, 3, 4]
     \<and> map res_voltage (results sol) = [- (6858231218024211 / 68719476736), - (6858224359 / 68719476736), - (6858231218024211 / 68719476736), - (1714556089949963 / 17179869184), - (6858231218024211 / 68719476736)]
     \<and> map res_current (results sol) = [- (7191376657670955 / 72057594037927936), - (6858224359 / 68719476736), - (877853595907099 / 8796093022208), - (3595684733150745 / 36028797018963968), 100]
     \<and> map res_power (results sol) = [2737816856235839 / 274877906944, 717700826391311 / 72057594037927936, 5347298547335623 / 536870912, 2737811380610341 / 274877906944, - (5357993139081415 / 536870912)]
     \<and> total_power sol = 793 / 268435456
     \<and> \<not> power_balance sol"
proof -
  from ladder_solve obtain sol where
    s: "solve_fp fl (circuit_solver (make_circuit ladder 0)) = Solved sol"
       "voltages sol = [(0, 0), (1, - (6858231218024211 / 68719476736)), (2, - (1714556089949963 / 17179869184))]"
       "total_power sol = 793 / 268435456"
    and r: "results sol = [\<lparr>res_id = 0, res_type = ''Resistor'', res_value = 1000000, res_node1 = 1, res_node2 = 0,
          res_voltage = - (6858231218024211 / 68719476736), res_current = - (7191376657670955 / 72057594037927936),
          res_power = 2737816856235839 / 274877906944\<rparr>,
        \<lparr>res_id = 1, res_type = ''Resistor'', res_value = 1, res_node1 = 1, res_node2 = 2,
          res_voltage = - (6858224359 / 68719476736), res_current = - (6858224359 / 68719476736),
          res_power = 717700826391311 / 72057594037927936\<rparr>,
        \<lparr>res_id = 2, res_type = ''Resistor'', res_value = 1000, res_node1 = 1, res_node2 = 0,
          res_voltage = - (6858231218024211 / 68719476736), res_current = - (877853595907099 / 8796093022208),
          res_power = 5347298547335623 / 536870912\<rparr>,
        \<lparr>res_id = 3, res_type = ''Resistor'', res_value = 1000000, res_node1 = 2, res_node2 = 0,
          res_voltage = - (1714556089949963 / 17179869184), res_current = - (3595684733150745 / 36028797018963968),
          res_power = 2737811380610341 / 274877906944\<rparr>,
        \<lparr>res_id = 4, res_type = ''Current Source'', res_value = 100, res_node1 = 1, res_node2 = 0,
          res_voltage = - (6858231218024211 / 68719476736), res_current = 100,
          res_power = - (5357993139081415 / 536870912)\<rparr>]"
    and b: "power_balance sol = (\<bar>total_power sol\<bar> < fl (1 / 10 ^ 9))"
    by (elim exE conjE) (rule that; assumption)
  have f: "\<not> power_balance sol"
    unfolding b s(3) by (simp add: fl_billionth)
  have m: "map res_id (results sol) = [0, 1, 2, 3, 4]"
    "map res_voltage (results sol) = [- (6858231218024211 / 68719476736), - (6858224359 / 68719476736), - (6858231218024211 / 68719476736), - (1714556089949963 / 17179869184), - (6858231218024211 / 68719476736)]"
    "map res_current (results sol) = [- (7191376657670955 / 72057594037927936), - (6858224359 / 68719476736), - (877853595907099 / 8796093022208), - (3595684733150745 / 36028797018963968), 100]"
    "map res_power (results sol) = [2737816856235839 / 274877906944, 717700826391311 / 72057594037927936, 5347298547335623 / 536870912, 2737811380610341 / 274877906944, - (5357993139081415 / 536870912)]"
    by (simp_all add: r)
  show ?thesis
    by (intro exI [of _ sol] conjI s m f)
qed

lemma swapped_ops:
  "fdiv fl 1 1000000 = 4722366482869645 / 4722366482869645213696"
  "fadd fl 0 (4722366482869645 / 4722366482869645213696) = 4722366482869645 / 4722366482869645213696"
  "fdiv fl 1 1000 = 1152921504606847 / 1152921504606846976"
  "fadd fl (4722366482869645 / 4722366482869645213696) (1152921504606847 / 1152921504606846976) = 4616297704445815 / 4611686018427387904"
  "fdiv fl 1 1 = 1"
  "fadd fl (4616297704445815 / 4611686018427387904) 1 = 2254053865298747 / 2251799813685248"
  "fadd fl 0 1 = 1"
  "fsub fl 0 1 = - 1"
  "fadd fl 1 (4722366482869645 / 4722366482869645213696) = 4503604130970123 / 4503599627370496"
  "fsub fl 0 100 = - 100"
  "fdiv fl (- 1) (2254053865298747 / 2251799813685248) = - (8998192064484443 / 9007199254740992)"
  "fmul fl (- (8998192064484443 / 9007199254740992)) (- 1) = 8998192064484443 / 9007199254740992"
  "fsub fl (4503604130970123 / 4503599627370496) (8998192064484443 / 9007199254740992) = 9016197455803 / 9007199254740992"
  "fmul fl (- (8998192064484443 / 9007199254740992)) (- 100) = 7029837550378471 / 70368744177664"
  "fsub fl 0 (7029837550378471 / 70368744177664) = - (7029837550378471 / 70368744177664)"
  "fdiv fl (- (7029837550378471 / 70368744177664)) (9016197455803 / 9007199254740992) = - (6858224359798329 / 68719476736)"
  "fmul fl (- 1) (- (6858224359798329 / 68719476736)) = 6858224359798329 / 68719476736"
  "fsub fl (- 100) (6858224359798329 / 68719476736) = - (6865096307471929 / 68719476736)"
  "fdiv fl (- (6865096307471929 / 68719476736)) (2254053865298747 / 2251799813685248) = - (214319725563209 / 2147483648)"
  "fsub fl (- (214319725563209 / 2147483648)) 0 = - (214319725563209 / 2147483648)"
  "fdiv fl (- (214319725563209 / 2147483648)) 1000000 = - (3595688328834679 / 36028797018963968)"
  "fmul fl (- (214319725563209 / 2147483648)) (- (3595688328834679 / 36028797018963968)) = 2737816856234623 / 274877906944"
  "fadd fl 0 (2737816856234623 / 274877906944) = 2737816856234623 / 274877906944"
  "fdiv fl (- (214319725563209 / 2147483648)) 1000 = - (7022828767255233 / 70368744177664)"
  "fmul fl (- (214319725563209 / 2147483648)) (- (7022828767255233 / 70368744177664)) = 5347298547333249 / 536870912"
  "fadd fl (2737816856234623 / 274877906944) (5347298547333249 / 536870912) = 2676322922940291 / 268435456"
  "fsub fl (- (214319725563209 / 2147483648)) (- (6858224359798329 / 68719476736)) = - (6858224359 / 68719476736)"
  "fdiv fl (- (6858224359 / 68719476736)) 1 = - (6858224359 / 68719476736)"
  "fmul fl (- (6858224359 / 68719476736)) (- (6858224359 / 68719476736)) = 717700826391311 / 72057594037927936"
  "fadd fl (2676322922940291 / 268435456) (717700826391311 / 72057594037927936) = 2676322925613935 / 268435456"
  "fsub fl (- (6858224359798329 / 68719476736)) 0 = - (6858224359798329 / 68719476736)"
  "fdiv fl (- (6858224359798329 / 68719476736)) 1000000 = - (7191369466299893 / 72057594037927936)"
  "fmul fl (- (6858224359798329 / 68719476736)) (- (7191369466299893 / 72057594037927936)) = 2737811380609125 / 274877906944"
  "fadd fl (2676322925613935 / 268435456) (2737811380609125 / 274877906944) = 2678996569540311 / 268435456"
  "fmul fl (- (214319725563209 / 2147483648)) 100 = - (5357993139080225 / 536870912)"
  "fadd fl (2678996569540311 / 268435456) (- (5357993139080225 / 536870912)) = 397 / 536870912"
proof -
  show "fdiv fl 1 1000000 = 4722366482869645 / 4722366482869645213696"
    unfolding fdiv_def by (rule fl_upI [where k = 72 and m = 4722366482869645]) simp_all
  show "fadd fl 0 (4722366482869645 / 4722366482869645213696) = 4722366482869645 / 4722366482869645213696"
    unfolding fadd_def by (rule fl_upI [where k = 72 and m = 4722366482869645]) simp_all
  show "fdiv fl 1 1000 = 1152921504606847 / 1152921504606846976"
    unfolding fdiv_def by (rule fl_upI [where k = 62 and m = 4611686018427388]) simp_all
  show "fadd fl (4722366482869645 / 4722366482869645213696) (1152921504606847 / 1152921504606846976) = 4616297704445815 / 4611686018427387904"
    unfolding fadd_def by (rule fl_upI [where k = 62 and m = 4616297704445815]) simp_all
  show "fdiv fl 1 1 = 1"
    unfolding fdiv_def by (rule fl_upI [where k = 52 and m = 4503599627370496]) simp_all
  show "fadd fl (4616297704445815 / 4611686018427387904) 1 = 2254053865298747 / 2251799813685248"
    unfolding fadd_def by (rule fl_upI [where k = 52 and m = 4508107730597494]) simp_all
  show "fadd fl 0 1 = 1"
    unfolding fadd_def by (rule fl_upI [where k = 52 and m = 4503599627370496]) simp_all
  show "fsub fl 0 1 = - 1"
    unfolding fsub_def by (rule fl_upI [where k = 52 and m = "- 4503599627370496"]) simp_all
  show "fadd fl 1 (4722366482869645 / 4722366482869645213696) = 4503604130970123 / 4503599627370496"
    unfolding fadd_def by (rule fl_upI [where k = 52 and m = 4503604130970123]) simp_all
  show "fsub fl 0 100 = - 100"
    unfolding fsub_def by (rule fl_upI [where k = 46 and m = "- 7036874417766400"]) simp_all
  show "fdiv fl (- 1) (2254053865298747 / 2251799813685248) = - (8998192064484443 / 9007199254740992)"
    unfolding fdiv_def by (rule fl_upI [where k = 53 and m = "- 8998192064484443"]) simp_all
  show "fmul fl (- (8998192064484443 / 9007199254740992)) (- 1) = 8998192064484443 / 9007199254740992"
    unfolding fmul_def by (rule fl_upI [where k = 53 and m = 8998192064484443]) simp_all
  show "fsub fl (4503604130970123 / 4503599627370496) (8998192064484443 / 9007199254740992) = 9016197455803 / 9007199254740992"
    unfolding fsub_def by (rule fl_upI [where k = 62 and m = 4616293097371136]) simp_all
  show "fmul fl (- (8998192064484443 / 9007199254740992)) (- 100) = 7029837550378471 / 70368744177664"
    unfolding fmul_def by (rule fl_upI [where k = 46 and m = 7029837550378471]) simp_all
  show "fsub fl 0 (7029837550378471 / 70368744177664) = - (7029837550378471 / 70368744177664)"
    unfolding fsub_def by (rule fl_upI [where k = 46 and m = "- 7029837550378471"]) simp_all
  show "fdiv fl (- (7029837550378471 / 70368744177664)) (9016197455803 / 9007199254740992) = - (6858224359798329 / 68719476736)"
    unfolding fdiv_def by (rule fl_upI [where k = 36 and m = "- 6858224359798329"]) simp_all
  show "fmul fl (- 1) (- (6858224359798329 / 68719476736)) = 6858224359798329 / 68719476736"
    unfolding fmul_def by (rule fl_upI [where k = 36 and m = 6858224359798329]) simp_all
  show "fsub fl (- 100) (6858224359798329 / 68719476736) = - (6865096307471929 / 68719476736)"
    unfolding fsub_def by (rule fl_upI [where k = 36 and m = "- 6865096307471929"]) simp_all
  show "fdiv fl (- (6865096307471929 / 68719476736)) (2254053865298747 / 2251799813685248) = - (214319725563209 / 2147483648)"
    unfolding fdiv_def by (rule fl_upI [where k = 36 and m = "- 6858231218022688"]) simp_all
  show "fsub fl (- (214319725563209 / 2147483648)) 0 = - (214319725563209 / 2147483648)"
    unfolding fsub_def by (rule fl_upI [where k = 36 and m = "- 6858231218022688"]) simp_all
  show "fdiv fl (- (214319725563209 / 2147483648)) 1000000 = - (3595688328834679 / 36028797018963968)"
    unfolding fdiv_def by (rule fl_upI [where k = 56 and m = "- 7191376657669358"]) simp_all
  show "fmul fl (- (214319725563209 / 2147483648)) (- (3595688328834679 / 36028797018963968)) = 2737816856234623 / 274877906944"
    unfolding fmul_def by (rule fl_upI [where k = 39 and m = 5475633712469246]) simp_all
  show "fadd fl 0 (2737816856234623 / 274877906944) = 2737816856234623 / 274877906944"
    unfolding fadd_def by (rule fl_upI [where k = 39 and m = 5475633712469246]) simp_all
  show "fdiv fl (- (214319725563209 / 2147483648)) 1000 = - (7022828767255233 / 70368744177664)"
    unfolding fdiv_def by (rule fl_upI [where k = 46 and m = "- 7022828767255233"]) simp_all
  show "fmul fl (- (214319725563209 / 2147483648)) (- (7022828767255233 / 70368744177664)) = 5347298547333249 / 536870912"
    unfolding fmul_def by (rule fl_upI [where k = 29 and m = 5347298547333249]) simp_all
  show "fadd fl (2737816856234623 / 274877906944) (5347298547333249 / 536870912) = 2676322922940291 / 268435456"
    unfolding fadd_def by (rule fl_upI [where k = 29 and m = 5352645845880582]) simp_all
  show "fsub fl (- (214319725563209 / 2147483648)) (- (6858224359798329 / 68719476736)) = - (6858224359 / 68719476736)"
    unfolding fsub_def by (rule fl_upI [where k = 56 and m = "- 7191369465462784"]) simp_all
  show "fdiv fl (- (6858224359 / 68719476736)) 1 = - (6858224359 / 68719476736)"
    unfolding fdiv_def by (rule fl_upI [where k = 56 and m = "- 7191369465462784"]) simp_all
  show "fmul fl (- (6858224359 / 68719476736)) (- (6858224359 / 68719476736)) = 717700826391311 / 72057594037927936"
    unfolding fmul_def by (rule fl_upI [where k = 59 and m = 5741606611130488]) simp_all
  show "fadd fl (2676322922940291 / 268435456) (717700826391311 / 72057594037927936) = 2676322925613935 / 268435456"
    unfolding fadd_def by (rule fl_upI [where k = 29 and m = 5352645851227870]) simp_all
  show "fsub fl (- (6858224359798329 / 68719476736)) 0 = - (6858224359798329 / 68719476736)"
    unfolding fsub_def by (rule fl_upI [where k = 36 and m = "- 6858224359798329"]) simp_all
  show "fdiv fl (- (6858224359798329 / 68719476736)) 1000000 = - (7191369466299893 / 72057594037927936)"
    unfolding fdiv_def by (rule fl_upI [where k = 56 and m = "- 7191369466299893"]) simp_all
  show "fmul fl (- (6858224359798329 / 68719476736)) (- (7191369466299893 / 72057594037927936)) = 2737811380609125 / 274877906944"
    unfolding fmul_def by (rule fl_upI [where k = 39 and m = 5475622761218250]) simp_all
  show "fadd fl (2676322925613935 / 268435456) (2737811380609125 / 274877906944) = 2678996569540311 / 268435456"
    unfolding fadd_def by (rule fl_upI [where k = 29 and m = 5357993139080622]) simp_all
  show "fmul fl (- (214319725563209 / 2147483648)) 100 = - (5357993139080225 / 536870912)"
    unfolding fmul_def by (rule fl_upI [where k = 29 and m = "- 5357993139080225"]) simp_all
  show "fadd fl (2678996569540311 / 268435456) (- (5357993139080225 / 536870912)) = 397 / 536870912"
    unfolding fadd_def by (rule fl_upI [where k = 73 and m = 6984097859633152]) simp_all
qed

lemma swapped_system:
  "build_mna_system_fp fl (circuit_solver (make_circuit ladder_swapped 0))
     = Inr ([[2254053865298747 / 2251799813685248, - 1], [- 1, 4503604130970123 / 4503599627370496]],
            [- 100, 0])"
  by (simp add: ladder_swapped_def model_defs solver_defs fp_defs Let_def swapped_ops)

lemma swapped_linalg:
  "linalg_solve_fp fl [[2254053865298747 / 2251799813685248, - 1], [- 1, 4503604130970123 / 4503599627370496]]
       [- 100, 0]
     = Inr [- (214319725563209 / 2147483648), - (6858224359798329 / 68719476736)]"
  by (simp add: gauss_fp_defs eval_nat_numeral swapped_ops)

lemma swapped_results:
  "component_results_fp fl (circuit_solver (make_circuit ladder_swapped 0)) ladder_swapped
       [(0, 0), (1, - (214319725563209 / 2147483648)), (2, - (6858224359798329 / 68719476736))] []
     = Inr [\<lparr>res_id = 0, res_type = ''Resistor'', res_value = 1000000, res_node1 = 1, res_node2 = 0,
          res_voltage = - (214319725563209 / 2147483648), res_current = - (3595688328834679 / 36028797018963968),
          res_power = 2737816856234623 / 274877906944\<rparr>,
        \<lparr>res_id = 2, res_type = ''Resistor'', res_value = 1000, res_node1 = 1, res_node2 = 0,
          res_voltage = - (214319725563209 / 2147483648), res_current = - (7022828767255233 / 70368744177664),
          res_power = 5347298547333249 / 536870912\<rparr>,
        \<lparr>res_id = 1, res_type = ''Resistor'', res_value = 1, res_node1 = 1, res_node2 = 2,
          res_voltage = - (6858224359 / 68719476736), res_current = - (6858224359 / 68719476736),
          res_power = 717700826391311 / 72057594037927936\<rparr>,
        \<lparr>res_id = 3, res_type = ''Resistor'', res_value = 1000000, res_node1 = 2, res_node2 = 0,
          res_voltage = - (6858224359798329 / 68719476736), res_current = - (7191369466299893 / 72057594037927936),
          res_power = 2737811380609125 / 274877906944\<rparr>,
        \<lparr>res_id = 4, res_type = ''Current Source'', res_value = 100, res_node1 = 1, res_node2 = 0,
          res_voltage = - (214319725563209 / 2147483648), res_current = 100,
          res_power = - (5357993139080225 / 536870912)\<rparr>]"
  by (simp add: ladder_swapped_def model_defs circuit_solver_def calculate_component_result_fp_def
      voltage_at_def type_name_def and_then_def Let_def swapped_ops)

lemma swapped_total:
  "sum_fp fl [2737816856234623 / 274877906944, 5347298547333249 / 536870912, 717700826391311 / 72057594037927936, 2737811380609125 / 274877906944, - (5357993139080225 / 536870912)] = 397 / 536870912"
  by (simp add: sum_fp_def swapped_ops)

lemma swapped_solve:
  "\<exists>sol. solve_fp fl (circuit_solver (make_circuit ladder_swapped 0)) = Solved sol
     \<and> voltages sol = [(0, 0), (1, - (214319725563209 / 2147483648)), (2, - (6858224359798329 / 68719476736))]
     \<and> results sol = [\<lparr>res_id = 0, res_type = ''Resistor'', res_value = 1000000, res_node1 = 1, res_node2 = 0,
          res_voltage = - (214319725563209 / 2147483648), res_current = - (3595688328834679 / 36028797018963968),
          res_power = 2737816856234623 / 274877906944\<rparr>,
        \<lparr>res_id = 2, res_type = ''Resistor'', res_value = 1000, res_node1 = 1, res_node2 = 0,
          res_voltage = - (214319725563209 / 2147483648), res_current = - (7022828767255233 / 70368744177664),
          res_power = 5347298547333249 / 536870912\<rparr>,
        \<lparr>res_id = 1, res_type = ''Resistor'', res_value = 1, res_node1 = 1, res_node2 = 2,
          res_voltage = - (6858224359 / 68719476736), res_current = - (6858224359 / 68719476736),
          res_power = 717700826391311 / 72057594037927936\<rparr>,
        \<lparr>res_id = 3, res_type = ''Resistor'', res_value = 1000000, res_node1 = 2, res_node2 = 0,
          res_voltage = - (6858224359798329 / 68719476736), res_current = - (7191369466299893 / 72057594037927936),
          res_power = 2737811380609125 / 274877906944\<rparr>,
        \<lparr>res_id = 4, res_type = ''Current Source'', res_value = 100, res_node1 = 1, res_node2 = 0,
          res_voltage = - (214319725563209 / 2147483648), res_current = 100,
          res_power = - (5357993139080225 / 536870912)\<rparr>]
     \<and> total_power sol = 397 / 536870912
     \<and> power_balance sol = (\<bar>total_power sol\<bar> < fl (1 / 10 ^ 9))"
proof -
  have c: "components (make_circuit ladder_swapped 0) = ladder_swapped"
    by (simp add: ladder_swapped_def model_defs)
  have v: "take (spec_N (make_circuit ladder_swapped 0)) [- (214319725563209 / 2147483648), - (6858224359798329 / 68719476736)] = [- (214319725563209 / 2147483648), - (6858224359798329 / 68719476736)]"
    by (simp add: ladder_swapped_def model_defs spec_N_def)
  have i: "drop (spec_N (make_circuit ladder_swapped 0)) [- (214319725563209 / 2147483648), - (6858224359798329 / 68719476736)] = []"
    by (simp add: ladder_swapped_def model_defs spec_N_def)
  have d: "fill_voltages (circuit_solver (make_circuit ladder_swapped 0)) 0 [- (214319725563209 / 2147483648), - (6858224359798329 / 68719476736)]
        [(reference_node (make_circuit ladder_swapped 0), 0)]
      = Inr [(0, 0), (1, - (214319725563209 / 2147483648)), (2, - (6858224359798329 / 68719476736))]"
    by (simp add: ladder_swapped_def model_defs circuit_solver_def)
  from solve_fp_circuitI [OF swapped_system swapped_linalg c v i d swapped_results] obtain sol where
    s: "solve_fp fl (circuit_solver (make_circuit ladder_swapped 0)) = Solved sol"
       "voltages sol = [(0, 0), (1, - (214319725563209 / 2147483648)), (2, - (6858224359798329 / 68719476736))]"
       "results sol = [\<lparr>res_id = 0, res_type = ''Resistor'', res_value = 1000000, res_node1 = 1, res_node2 = 0,
          res_voltage = - (214319725563209 / 2147483648), res_current = - (3595688328834679 / 36028797018963968),
          res_power = 2737816856234623 / 274877906944\<rparr>,
        \<lparr>res_id = 2, res_type = ''Resistor'', res_value = 1000, res_node1 = 1, res_node2 = 0,
          res_voltage = - (214319725563209 / 2147483648), res_current = - (7022828767255233 / 70368744177664),
          res_power = 5347298547333249 / 536870912\<rparr>,
        \<lparr>res_id = 1, res_type = ''Resistor'', res_value = 1, res_node1 = 1, res_node2 = 2,
          res_voltage = - (6858224359 / 68719476736), res_current = - (6858224359 / 68719476736),
          res_power = 717700826391311 / 72057594037927936\<rparr>,
        \<lparr>res_id = 3, res_type = ''Resistor'', res_value = 1000000, res_node1 = 2, res_node2 = 0,
          res_voltage = - (6858224359798329 / 68719476736), res_current = - (7191369466299893 / 72057594037927936),
          res_power = 2737811380609125 / 274877906944\<rparr>,
        \<lparr>res_id = 4, res_type = ''Current Source'', res_value = 100, res_node1 = 1, res_node2 = 0,
          res_voltage = - (214319725563209 / 2147483648), res_current = 100,
          res_power = - (5357993139080225 / 536870912)\<rparr>]"
    and t: "total_power sol = sum_fp fl (map res_power [\<lparr>res_id = 0, res_type = ''Resistor'', res_value = 1000000, res_node1 = 1, res_node2 = 0,
          res_voltage = - (214319725563209 / 2147483648), res_current = - (3595688328834679 / 36028797018963968),
          res_power = 2737816856234623 / 274877906944\<rparr>,
        \<lparr>res_id = 2, res_type = ''Resistor'', res_value = 1000, res_node1 = 1, res_node2 = 0,
          res_voltage = - (214319725563209 / 2147483648), res_current = - (7022828767255233 / 70368744177664),
          res_power = 5347298547333249 / 536870912\<rparr>,
        \<lparr>res_id = 1, res_type = ''Resistor'', res_value = 1, res_node1 = 1, res_node2 = 2,
          res_voltage = - (6858224359 / 68719476736), res_current = - (6858224359 / 68719476736),
          res_power = 717700826391311 / 72057594037927936\<rparr>,
        \<lparr>res_id = 3, res_type = ''Resistor'', res_value = 1000000, res_node1 = 2, res_node2 = 0,
          res_voltage = - (6858224359798329 / 68719476736), res_current = - (7191369466299893 / 72057594037927936),
          res_power = 2737811380609125 / 274877906944\<rparr>,
        \<lparr>res_id = 4, res_type = ''Current Source'', res_value = 100, res_node1 = 1, res_node2 = 0,
          res_voltage = - (214319725563209 / 2147483648), res_current = 100,
          res_power = - (5357993139080225 / 536870912)\<rparr>])"
    and b: "power_balance sol = (\<bar>total_power sol\<bar> < fl (1 / 10 ^ 9))"
    by blast
  have "total_power sol = 397 / 536870912"
    unfolding t by (simp add: swapped_total)
  then show ?thesis
    by (intro exI [of _ sol] conjI s b)
qed

lemma swapped_summary:
  "\<exists>sol. solve_fp fl (circuit_solver (make_circuit ladder_swapped 0)) = Solved sol
     \<and> voltages sol = [(0, 0), (1, - (214319725563209 / 2147483648)), (2, - (6858224359798329 / 68719476736))]
     \<and> map res_id (results sol) = [0, 2, 1, 3, 4]
     \<and> map res_voltage (results sol) = [- (214319725563209 / 2147483648), - (214319725563209 / 2147483648), - (6858224359 / 68719476736), - (6858224359798329 / 68719476736), - (214319725563209 / 2147483648)]
     \<and> map res_current (results sol) = [- (3595688328834679 / 36028797018963968), - (7022828767255233 / 70368744177664), - (6858224359 / 68719476736), - (7191369466299893 / 72057594037927936), 100]
     \<and> map res_power (results sol) = [2737816856234623 / 274877906944, 5347298547333249 / 536870912, 717700826391311 / 72057594037927936, 2737811380609125 / 274877906944, - (5357993139080225 / 536870912)]
     \<and> total_power sol = 397 / 536870912
     \<and> \<not> power_balance sol"
proof -
  from swapped_solve obtain sol where
    s: "solve_fp fl (circuit_solver (make_circuit ladder_swapped 0)) = Solved sol"
       "voltages sol = [(0, 0), (1, - (214319725563209 / 2147483648)), (2, - (6858224359798329 / 68719476736))]"
       "total_power sol = 397 / 536870912"
    and r: "results sol = [\<lparr>res_id = 0, res_type = ''Resistor'', res_value = 1000000, res_node1 = 1, res_node2 = 0,
          res_voltage = - (214319725563209 / 2147483648), res_current = - (3595688328834679 / 36028797018963968),
          res_power = 2737816856234623 / 274877906944\<rparr>,
        \<lparr>res_id = 2, res_type = ''Resistor'', res_value = 1000, res_node1 = 1, res_node2 = 0,
          res_voltage = - (214319725563209 / 2147483648), res_current = - (7022828767255233 / 70368744177664),
          res_power = 5347298547333249 / 536870912\<rparr>,
        \<lparr>res_id = 1, res_type = ''Resistor'', res_value = 1, res_node1 = 1, res_node2 = 2,
          res_voltage = - (6858224359 / 68719476736), res_current = - (6858224359 / 68719476736),
          res_power = 717700826391311 / 72057594037927936\<rparr>,
        \<lparr>res_id = 3, res_type = ''Resistor'', res_value = 1000000, res_node1 = 2, res_node2 = 0,
          res_voltage = - (6858224359798329 / 68719476736), res_current = - (7191369466299893 / 72057594037927936),
          res_power = 2737811380609125 / 274877906944\<rparr>,
        \<lparr>res_id = 4, res_type = ''Current Source'', res_value = 100, res_node1 = 1, res_node2 = 0,
          res_voltage = - (214319725563209 / 2147483648), res_current = 100,
          res_power = - (5357993139080225 / 536870912)\<rparr>]"
    and b: "power_balance sol = (\<bar>total_power sol\<bar> < fl (1 / 10 ^ 9))"
    by (elim exE conjE) (rule that; assumption)
  have f: "\<not> power_balance sol"
    unfolding b s(3) by (simp add: fl_billionth)
  have m: "map res_id (results sol) = [0, 2, 1, 3, 4]"
    "map res_voltage (results sol) = [- (214319725563209 / 2147483648), - (214319725563209 / 2147483648), - (6858224359 / 68719476736), - (6858224359798329 / 68719476736), - (214319725563209 / 2147483648)]"
    "map res_current (results sol) = [- (3595688328834679 / 36028797018963968), - (7022828767255233 / 70368744177664), - (6858224359 / 68719476736), - (7191369466299893 / 72057594037927936), 100]"
    "map res_power (results sol) = [2737816856234623 / 274877906944, 5347298547333249 / 536870912, 717700826391311 / 72057594037927936, 2737811380609125 / 274877906944, - (5357993139080225 / 536870912)]"
    by (simp_all add: r)
  show ?thesis
    by (intro exI [of _ sol] conjI s m f)
qed

lemma stiff_ops:
  "fdiv fl 1 (4722366482869645 / 4722366482869645213696) = 1000000"
  "fadd fl 0 1000000 = 1000000"
  "fsub fl 0 1000000 = - 1000000"
  "fdiv fl 1 1000000000 = 4835703278458517 / 4835703278458516698824704"
  "fadd fl 1000000 (4835703278458517 / 4835703278458516698824704) = 8589934592000009 / 8589934592"
  "fadd fl 0 (1152921504606847 / 1152921504606846976) = 1152921504606847 / 1152921504606846976"
  "fdiv fl (- 1000000) 1000000 = - 1"
  "fmul fl (- 1) (- 1000000) = 1000000"
  "fsub fl (8589934592000009 / 8589934592) 1000000 = 9 / 8589934592"
  "fmul fl (- 1) (1152921504606847 / 1152921504606846976) = - (1152921504606847 / 1152921504606846976)"
  "fsub fl 0 (- (1152921504606847 / 1152921504606846976)) = 1152921504606847 / 1152921504606846976"
  "fdiv fl (1152921504606847 / 1152921504606846976) (9 / 8589934592) = 4099276460824345 / 4294967296"
  "fmul fl (- 1000000) (4099276460824345 / 4294967296) = - (3909374676536889 / 4096)"
  "fsub fl (1152921504606847 / 1152921504606846976) (- (3909374676536889 / 4096)) = 3909374676536893 / 4096"
  "fdiv fl (3909374676536893 / 4096) 1000000 = 4099276460824349 / 4294967296"
  "fsub fl 0 (4099276460824349 / 4294967296) = - (4099276460824349 / 4294967296)"
  "fmul fl (- (4099276460824349 / 4294967296)) (1152921504606847 / 1152921504606846976) = - (8395318191768267 / 8796093022208)"
  "fadd fl 0 (- (8395318191768267 / 8796093022208)) = - (8395318191768267 / 8796093022208)"
  "fsub fl (4099276460824349 / 4294967296) (4099276460824345 / 4294967296) = 1 / 1073741824"
  "fdiv fl (1 / 1073741824) (4722366482869645 / 4722366482869645213696) = 15625 / 16777216"
  "fmul fl (1 / 1073741824) (15625 / 16777216) = 15625 / 18014398509481984"
  "fadd fl (- (8395318191768267 / 8796093022208)) (15625 / 18014398509481984) = - (8395318191768259 / 8796093022208)"
  "fsub fl (4099276460824345 / 4294967296) 0 = 4099276460824345 / 4294967296"
  "fdiv fl (4099276460824345 / 4294967296) 1000000000 = 8803129168251593 / 9223372036854775808"
  "fmul fl (4099276460824345 / 4294967296) (8803129168251593 / 9223372036854775808) = 2003200948508807 / 2199023255552"
  "fadd fl (- (8395318191768259 / 8796093022208)) (2003200948508807 / 2199023255552) = - (382514397733031 / 8796093022208)"
proof -
  show "fdiv fl 1 (4722366482869645 / 4722366482869645213696) = 1000000"
    unfolding fdiv_def by (rule fl_upI [where k = 33 and m = 8589934592000000]) simp_all
  show "fadd fl 0 1000000 = 1000000"
    unfolding fadd_def by (rule fl_upI [where k = 33 and m = 8589934592000000]) simp_all
  show "fsub fl 0 1000000 = - 1000000"
    unfolding fsub_def by (rule fl_upI [where k = 33 and m = "- 8589934592000000"]) simp_all
  show "fdiv fl 1 1000000000 = 4835703278458517 / 4835703278458516698824704"
    unfolding fdiv_def by (rule fl_upI [where k = 82 and m = 4835703278458517]) simp_all
  show "fadd fl 1000000 (4835703278458517 / 4835703278458516698824704) = 8589934592000009 / 8589934592"
    unfolding fadd_def by (rule fl_upI [where k = 33 and m = 8589934592000009]) simp_all
  show "fadd fl 0 (1152921504606847 / 1152921504606846976) = 1152921504606847 / 1152921504606846976"
    unfolding fadd_def by (rule fl_upI [where k = 62 and m = 4611686018427388]) simp_all
  show "fdiv fl (- 1000000) 1000000 = - 1"
    unfolding fdiv_def by (rule fl_upI [where k = 52 and m = "- 4503599627370496"]) simp_all
  show "fmul fl (- 1) (- 1000000) = 1000000"
    unfolding fmul_def by (rule fl_upI [where k = 33 and m = 8589934592000000]) simp_all
  show "fsub fl (8589934592000009 / 8589934592) 1000000 = 9 / 8589934592"
    unfolding fsub_def by (rule fl_upI [where k = 82 and m = 5066549580791808]) simp_all
  show "fmul fl (- 1) (1152921504606847 / 1152921504606846976) = - (1152921504606847 / 1152921504606846976)"
    unfolding fmul_def by (rule fl_upI [where k = 62 and m = "- 4611686018427388"]) simp_all
  show "fsub fl 0 (- (1152921504606847 / 1152921504606846976)) = 1152921504606847 / 1152921504606846976"
    unfolding fsub_def by (rule fl_upI [where k = 62 and m = 4611686018427388]) simp_all
  show "fdiv fl (1152921504606847 / 1152921504606846976) (9 / 8589934592) = 4099276460824345 / 4294967296"
    unfolding fdiv_def by (rule fl_upI [where k = 33 and m = 8198552921648690]) simp_all
  show "fmul fl (- 1000000) (4099276460824345 / 4294967296) = - (3909374676536889 / 4096)"
    unfolding fmul_def by (rule fl_upI [where k = 13 and m = "- 7818749353073778"]) simp_all
  show "fsub fl (1152921504606847 / 1152921504606846976) (- (3909374676536889 / 4096)) = 3909374676536893 / 4096"
    unfolding fsub_def by (rule fl_upI [where k = 13 and m = 7818749353073786]) simp_all
  show "fdiv fl (3909374676536893 / 4096) 1000000 = 4099276460824349 / 4294967296"
    unfolding fdiv_def by (rule fl_upI [where k = 33 and m = 8198552921648698]) simp_all
  show "fsub fl 0 (4099276460824349 / 4294967296) = - (4099276460824349 / 4294967296)"
    unfolding fsub_def by (rule fl_upI [where k = 33 and m = "- 8198552921648698"]) simp_all
  show "fmul fl (- (4099276460824349 / 4294967296)) (1152921504606847 / 1152921504606846976) = - (8395318191768267 / 8796093022208)"
    unfolding fmul_def by (rule fl_upI [where k = 43 and m = "- 8395318191768267"]) simp_all
  show "fadd fl 0 (- (8395318191768267 / 8796093022208)) = - (8395318191768267 / 8796093022208)"
    unfolding fadd_def by (rule fl_upI [where k = 43 and m = "- 8395318191768267"]) simp_all
  show "fsub fl (4099276460824349 / 4294967296) (4099276460824345 / 4294967296) = 1 / 1073741824"
    unfolding fsub_def by (rule fl_upI [where k = 82 and m = 4503599627370496]) simp_all
  show "fdiv fl (1 / 1073741824) (4722366482869645 / 4722366482869645213696) = 15625 / 16777216"
    unfolding fdiv_def by (rule fl_upI [where k = 63 and m = 8589934592000000]) simp_all
  show "fmul fl (1 / 1073741824) (15625 / 16777216) = 15625 / 18014398509481984"
    unfolding fmul_def by (rule fl_upI [where k = 93 and m = 8589934592000000]) simp_all
  show "fadd fl (- (8395318191768267 / 8796093022208)) (15625 / 18014398509481984) = - (8395318191768259 / 8796093022208)"
    unfolding fadd_def by (rule fl_upI [where k = 43 and m = "- 8395318191768259"]) simp_all
  show "fsub fl (4099276460824345 / 4294967296) 0 = 4099276460824345 / 4294967296"
    unfolding fsub_def by (rule fl_upI [where k = 33 and m = 8198552921648690]) simp_all
  show "fdiv fl (4099276460824345 / 4294967296) 1000000000 = 8803129168251593 / 9223372036854775808"
    unfolding fdiv_def by (rule fl_upI [where k = 63 and m = 8803129168251593]) simp_all
  show "fmul fl (4099276460824345 / 4294967296) (8803129168251593 / 9223372036854775808) = 2003200948508807 / 2199023255552"
    unfolding fmul_def by (rule fl_upI [where k = 43 and m = 8012803794035228]) simp_all
  show "fadd fl (- (8395318191768259 / 8796093022208)) (2003200948508807 / 2199023255552) = - (382514397733031 / 8796093022208)"
    unfolding fadd_def by (rule fl_upI [where k = 47 and m = "- 6120230363728496"]) simp_all
qed

lemma stiff_system:
  "build_mna_system_fp fl (circuit_solver (make_circuit stiff 0))
     = Inr ([[1000000, - 1000000], [- 1000000, 8589934592000009 / 8589934592]],
            [1152921504606847 / 1152921504606846976, 0])"
  by (simp add: stiff_def stiff_values model_defs solver_defs fp_defs Let_def stiff_ops)

lemma stiff_linalg:
  "linalg_solve_fp fl [[1000000, - 1000000], [- 1000000, 8589934592000009 / 8589934592]]
       [1152921504606847 / 1152921504606846976, 0]
     = Inr [4099276460824349 / 4294967296, 4099276460824345 / 4294967296]"
  by (simp add: gauss_fp_defs eval_nat_numeral stiff_ops)

lemma stiff_results:
  "component_results_fp fl (circuit_solver (make_circuit stiff 0)) stiff
       [(0, 0), (1, 4099276460824349 / 4294967296), (2, 4099276460824345 / 4294967296)] []
     = Inr [\<lparr>res_id = 0, res_type = ''Current Source'', res_value = 1152921504606847 / 1152921504606846976, res_node1 = 0, res_node2 = 1,
          res_voltage = - (4099276460824349 / 4294967296), res_current = 1152921504606847 / 1152921504606846976,
          res_power = - (8395318191768267 / 8796093022208)\<rparr>,
        \<lparr>res_id = 1, res_type = ''Resistor'', res_value = 4722366482869645 / 4722366482869645213696, res_node1 = 1, res_node2 = 2,
          res_voltage = 1 / 1073741824, res_current = 15625 / 16777216,
          res_power = 15625 / 18014398509481984\<rparr>,
        \<lparr>res_id = 2, res_type = ''Resistor'', res_value = 1000000000, res_node1 = 2, res_node2 = 0,
          res_voltage = 4099276460824345 / 4294967296, res_current = 8803129168251593 / 9223372036854775808,
          res_power = 2003200948508807 / 2199023255552\<rparr>]"
  by (simp add: stiff_def stiff_values model_defs circuit_solver_def calculate_component_result_fp_def
      voltage_at_def type_name_def and_then_def Let_def stiff_ops)

lemma stiff_total:
  "sum_fp fl [- (8395318191768267 / 8796093022208), 15625 / 18014398509481984, 2003200948508807 / 2199023255552] = - (382514397733031 / 8796093022208)"
  by (simp add: sum_fp_def stiff_ops)

lemma stiff_solve:
  "\<exists>sol. solve_fp fl (circuit_solver (make_circuit stiff 0)) = Solved sol
     \<and> voltages sol = [(0, 0), (1, 4099276460824349 / 4294967296), (2, 4099276460824345 / 4294967296)]
     \<and> results sol = [\<lparr>res_id = 0, res_type = ''Current Source'', res_value = 1152921504606847 / 1152921504606846976, res_node1 = 0, res_node2 = 1,
          res_voltage = - (4099276460824349 / 4294967296), res_current = 1152921504606847 / 1152921504606846976,
          res_power = - (8395318191768267 / 8796093022208)\<rparr>,
        \<lparr>res_id = 1, res_type = ''Resistor'', res_value = 4722366482869645 / 4722366482869645213696, res_node1 = 1, res_node2 = 2,
          res_voltage = 1 / 1073741824, res_current = 15625 / 16777216,
          res_power = 15625 / 18014398509481984\<rparr>,
        \<lparr>res_id = 2, res_type = ''Resistor'', res_value = 1000000000, res_node1 = 2, res_node2 = 0,
          res_voltage = 4099276460824345 / 4294967296, res_current = 8803129168251593 / 9223372036854775808,
          res_power = 2003200948508807 / 2199023255552\<rparr>]
     \<and> total_power sol = - (382514397733031 / 8796093022208)
     \<and> power_balance sol = (\<bar>total_power sol\<bar> < fl (1 / 10 ^ 9))"
proof -
  have c: "components (make_circuit stiff 0) = stiff"
    by (simp add: stiff_def model_defs)
  have v: "take (spec_N (make_circuit stiff 0)) [4099276460824349 / 4294967296, 4099276460824345 / 4294967296] = [4099276460824349 / 4294967296, 4099276460824345 / 4294967296]"
    by (simp add: stiff_def model_defs spec_N_def)
  have i: "drop (spec_N (make_circuit stiff 0)) [4099276460824349 / 4294967296, 4099276460824345 / 4294967296] = []"
    by (simp add: stiff_def model_defs spec_N_def)
  have d: "fill_voltages (circuit_solver (make_circuit stiff 0)) 0 [4099276460824349 / 4294967296, 4099276460824345 / 4294967296]
        [(reference_node (make_circuit stiff 0), 0)]
      = Inr [(0, 0), (1, 4099276460824349 / 4294967296), (2, 4099276460824345 / 4294967296)]"
    by (simp add: stiff_def model_defs circuit_solver_def)
  from solve_fp_circuitI [OF stiff_system stiff_linalg c v i d stiff_results] obtain sol where
    s: "solve_fp fl (circuit_solver (make_circuit stiff 0)) = Solved sol"
       "voltages sol = [(0, 0), (1, 4099276460824349 / 4294967296), (2, 4099276460824345 / 4294967296)]"
       "results sol = [\<lparr>res_id = 0, res_type = ''Current Source'', res_value = 1152921504606847 / 1152921504606846976, res_node1 = 0, res_node2 = 1,
          res_voltage = - (4099276460824349 / 4294967296), res_current = 1152921504606847 / 1152921504606846976,
          res_power = - (8395318191768267 / 8796093022208)\<rparr>,
        \<lparr>res_id = 1, res_type = ''Resistor'', res_value = 4722366482869645 / 4722366482869645213696, res_node1 = 1, res_node2 = 2,
          res_voltage = 1 / 1073741824, res_current = 15625 / 16777216,
          res_power = 15625 / 18014398509481984\<rparr>,
        \<lparr>res_id = 2, res_type = ''Resistor'', res_value = 1000000000, res_node1 = 2, res_node2 = 0,
          res_voltage = 4099276460824345 / 4294967296, res_current = 8803129168251593 / 9223372036854775808,
          res_power = 2003200948508807 / 2199023255552\<rparr>]"
    and t: "total_power sol = sum_fp fl (map res_power [\<lparr>res_id = 0, res_type = ''Current Source'', res_value = 1152921504606847 / 1152921504606846976, res_node1 = 0, res_node2 = 1,
          res_voltage = - (4099276460824349 / 4294967296), res_current = 1152921504606847 / 1152921504606846976,
          res_power = - (8395318191768267 / 8796093022208)\<rparr>,
        \<lparr>res_id = 1, res_type = ''Resistor'', res_value = 4722366482869645 / 4722366482869645213696, res_node1 = 1, res_node2 = 2,
          res_voltage = 1 / 1073741824, res_current = 15625 / 16777216,
          res_power = 15625 / 18014398509481984\<rparr>,
        \<lparr>res_id = 2, res_type = ''Resistor'', res_value = 1000000000, res_node1 = 2, res_node2 = 0,
          res_voltage = 4099276460824345 / 4294967296, res_current = 8803129168251593 / 9223372036854775808,
          res_power = 2003200948508807 / 2199023255552\<rparr>])"
    and b: "power_balance sol = (\<bar>total_power sol\<bar> < fl (1 / 10 ^ 9))"
    by blast
  have "total_power sol = - (382514397733031 / 8796093022208)"
    unfolding t by (simp add: stiff_total)
  then show ?thesis
    by (intro exI [of _ sol] conjI s b)
qed

lemma stiff_summary:
  "\<exists>sol. solve_fp fl (circuit_solver (make_circuit stiff 0)) = Solved sol
     \<and> voltages sol = [(0, 0), (1, 4099276460824349 / 4294967296), (2, 4099276460824345 / 4294967296)]
     \<and> map res_id (results sol) = [0, 1, 2]
     \<and> map res_voltage (results sol) = [- (4099276460824349 / 4294967296), 1 / 1073741824, 4099276460824345 / 4294967296]
     \<and> map res_current (results sol) = [1152921504606847 / 1152921504606846976, 15625 / 16777216, 8803129168251593 / 9223372036854775808]
     \<and> map res_power (results sol) = [- (8395318191768267 / 8796093022208), 15625 / 18014398509481984, 2003200948508807 / 2199023255552]
     \<and> total_power sol = - (382514397733031 / 8796093022208)
     \<and> \<not> power_balance sol"
proof -
  from stiff_solve obtain sol where
    s: "solve_fp fl (circuit_solver (make_circuit stiff 0)) = Solved sol"
       "voltages sol = [(0, 0), (1, 4099276460824349 / 4294967296), (2, 4099276460824345 / 4294967296)]"
       "total_power sol = - (382514397733031 / 8796093022208)"
    and r: "results sol = [\<lparr>res_id = 0, res_type = ''Current Source'', res_value = 1152921504606847 / 1152921504606846976, res_node1 = 0, res_node2 = 1,
          res_voltage = - (4099276460824349 / 4294967296), res_current = 1152921504606847 / 1152921504606846976,
          res_power = - (8395318191768267 / 8796093022208)\<rparr>,
        \<lparr>res_id = 1, res_type = ''Resistor'', res_value = 4722366482869645 / 4722366482869645213696, res_node1 = 1, res_node2 = 2,
          res_voltage = 1 / 1073741824, res_current = 15625 / 16777216,
          res_power = 15625 / 18014398509481984\<rparr>,
        \<lparr>res_id = 2, res_type = ''Resistor'', res_value = 1000000000, res_node1 = 2, res_node2 = 0,
          res_voltage = 4099276460824345 / 4294967296, res_current = 8803129168251593 / 9223372036854775808,
          res_power = 2003200948508807 / 2199023255552\<rparr>]"
    and b: "power_balance sol = (\<bar>total_power sol\<bar> < fl (1 / 10 ^ 9))"
    by (elim exE conjE) (rule that; assumption)
  have f: "\<not> power_balance sol"
    unfolding b s(3) by (simp add: fl_billionth)
  have m: "map res_id (results sol) = [0, 1, 2]"
    "map res_voltage (results sol) = [- (4099276460824349 / 4294967296), 1 / 1073741824, 4099276460824345 / 4294967296]"
    "map res_current (results sol) = [1152921504606847 / 1152921504606846976, 15625 / 16777216, 8803129168251593 / 9223372036854775808]"
    "map res_power (results sol) = [- (8395318191768267 / 8796093022208), 15625 / 18014398509481984, 2003200948508807 / 2199023255552]"
    by (simp_all add: r)
  show ?thesis
    by (intro exI [of _ sol] conjI s m f)
qed











section \<open>The properties that depend on the arithmetic\<close>

subsection \<open>The singular-matrix result\<close>






subsection \<open>Conservation of power\<close>

lemma solved_exact:
  assumes ok: "model_ok m"
    and vs: "\<forall>V \<in> set (of_class VoltageSource m). node1 V = node2 V \<longrightarrow> node1 V = reference_node m"
    and solved: "solve (circuit_solver m) = Solved sol"
  shows "\<exists>x. satisfies m 1 x
           \<and> (\<forall>t. voltage_at (voltages sol) t = node_voltage m x t)
           \<and> results sol = map (result_of m x) (components m)
           \<and> total_power sol = sum_list (map res_power (results sol))"
proof -
  define n where "n = spec_N m + spec_M m"
  have wf: "well_formed n (zip (spec_matrix m) (spec_vector m))"
    unfolding n_def by (rule well_formed_spec)
  from solve_Solved [OF solved] obtain G Z X where
    build: "build_mna_system (circuit_solver m) = Inr (G, Z)"
    and lin: "linalg_solve G Z = Inr X"
    and pack: "package_solution (circuit_solver m) (take (spec_N m) X) (drop (spec_N m) X) G Z = Inr sol"
    by auto
  have res: "\<forall>R \<in> set (of_class Resistor m). comp_value R \<noteq> 0"
  proof (rule ccontr)
    assume "\<not> ?thesis"
    then have "\<exists>R \<in> set (of_class Resistor m). comp_value R = 0" by simp
    from solve_zero_resistor [OF ok this] solved show False by simp
  qed
  have GZ: "G = spec_matrix m" "Z = spec_vector m"
    using build_mna_system_spec [OF ok res vs] build by simp_all
  have g: "gauss n (zip (spec_matrix m) (spec_vector m)) = Some X"
    using lin unfolding GZ linalg_solve_spec n_def by (simp split: option.splits)
  from gauss_sound [OF wf g] have X: "length X = n"
    and rows: "\<forall>r \<in> set (zip (spec_matrix m) (spec_vector m)). dot (fst r) X = snd r" by auto
  have sat: "satisfies m 1 (\<lambda>i. X ! i)"
    using rows_satisfies [of X m 1] X rows by (simp add: n_def)
  from voltages_of_solution [OF ok X [unfolded n_def]] obtain d where
    d: "fill_voltages (circuit_solver m) 0 (take (spec_N m) X) [(reference_node m, 0)] = Inr d"
       "\<And>t. voltage_at d t = node_voltage m (\<lambda>i. X ! i) t" by blast
  have R: "\<forall>c \<in> set (components m). comp_class c = Resistor \<longrightarrow> comp_value c \<noteq> 0"
    using res by (simp add: of_class_def)
  have rs: "component_results (circuit_solver m) (components m) d (drop (spec_N m) X)
          = Inr (map (result_of m (\<lambda>i. X ! i)) (components m))"
    by (rule component_results_result_of [OF d(2) X [unfolded n_def] R])
  have "voltages sol = d" "results sol = map (result_of m (\<lambda>i. X ! i)) (components m)"
    "total_power sol = sum_list (map res_power (results sol))"
    using pack d(1) rs by (auto simp: package_solution_def and_then_def)
  then show ?thesis using sat d(2) by blast
qed

lemma divider_fp_solve:
  "\<exists>sol. solve_fp (\<lambda>x. x) (circuit_solver (make_circuit
       [comp 0 VoltageSource 10 1 0, comp 1 Resistor 1000 1 0] 0)) = Solved sol"
  unfolding solve_fp_id by (rule divider_solve)

text \<open>
  C5 (as stated): the reported powers add up to zero within the tolerance
  \<open>10^-6 * (1 + max|V| * max|I|)\<close>. Counterexample: the current source
  \<open>CS(0.001, 0, 1)\<close> with the resistors \<open>R(0.000001, 1, 2)\<close> and \<open>R(10^9, 2, 0)\<close>,
  reference node 0. In double precision the conductance \<open>10^-9\<close> is added to \<open>10^6\<close>
  with a relative error of five per cent; \<open>solve\<close> returns a solution whose powers add
  up to about \<open>-43.5\<close>, in the order of the program and as a sum of real numbers, against
  a tolerance below \<open>0.001\<close>; the flag \<open>power_balance\<close> of the solution is not set.
  (It is not set either for \<open>CS(100, 0, 1)\<close>, \<open>R(300000, 1, 0)\<close>, \<open>R(700000, 1, 0)\<close>,
  where the powers add up to \<open>-2^-22\<close>: lemma \<open>parallel_pair_summary\<close>.)
\<close>

theorem power_tolerance_counterexample:
  "\<exists>sol. solve_fp fl (circuit_solver (make_circuit stiff 0)) = Solved sol
     \<and> voltages sol = [(0, 0), (1, 4099276460824349 / 4294967296),
                        (2, 4099276460824345 / 4294967296)]
     \<and> map res_current (results sol)
         = [1152921504606847 / 1152921504606846976, 15625 / 16777216,
            8803129168251593 / 9223372036854775808]
     \<and> map res_power (results sol)
         = [- (8395318191768267 / 8796093022208), 15625 / 18014398509481984,
            2003200948508807 / 2199023255552]
     \<and> total_power sol = - (382514397733031 / 8796093022208)
     \<and> power_tolerance sol < 1 / 1000
     \<and> 43 < \<bar>total_power sol\<bar>
     \<and> 43 < \<bar>sum_list (map res_power (results sol))\<bar>
     \<and> \<not> power_balance sol"
proof -
  from stiff_summary obtain sol where
    s: "solve_fp fl (circuit_solver (make_circuit stiff 0)) = Solved sol"
    and v: "voltages sol = [(0, 0), (1, 4099276460824349 / 4294967296), (2, 4099276460824345 / 4294967296)]"
    and i: "map res_id (results sol) = [0, 1, 2]"
    and u: "map res_voltage (results sol) = [- (4099276460824349 / 4294967296), 1 / 1073741824, 4099276460824345 / 4294967296]"
    and c: "map res_current (results sol) = [1152921504606847 / 1152921504606846976, 15625 / 16777216, 8803129168251593 / 9223372036854775808]"
    and p: "map res_power (results sol) = [- (8395318191768267 / 8796093022208), 15625 / 18014398509481984, 2003200948508807 / 2199023255552]"
    and t: "total_power sol = - (382514397733031 / 8796093022208)"
    and f: "\<not> power_balance sol"
    by (elim exE conjE) (rule that; assumption)
  have e: "power_tolerance sol < 1 / 1000"
    unfolding power_tolerance_def c v by (simp add: max_abs_def)
  have a: "43 < \<bar>total_power sol\<bar>" unfolding t by simp
  have b: "43 < \<bar>sum_list (map res_power (results sol))\<bar>" unfolding p by simp
  show ?thesis
    by (intro exI [of _ sol] conjI s v c p t e a b f)
qed

text \<open>
  C5 (amended): for every circuit built from components and a reference node in which
  no voltage source has both terminals on the same non-reference node (so for every
  valid circuit), when \<open>solve\<close> in exact arithmetic returns a solution, the solution is
  that of a vector \<open>x\<close> that satisfies the assembled system: the voltage of every node is
  its entry of \<open>x\<close> (0 at the reference node), the result of every component, in the
  order of the components, carries its voltage \<open>v\<close>, its current (\<open>v / R\<close> for a
  resistor, the value of a current source, the entry of \<open>x\<close> for a voltage source) and
  the power \<open>v\<close> times the current, and these powers add up to exactly zero.
\<close>

theorem power_is_conserved:
  assumes "list_all (\<lambda>V. node1 V = node2 V \<longrightarrow> node1 V = r)
             (of_class VoltageSource (make_circuit cs r))"
    and "solve_fp (\<lambda>x. x) (circuit_solver (make_circuit cs r)) = Solved sol"
  shows "\<exists>x. satisfies (make_circuit cs r) 1 x
           \<and> (\<forall>t. voltage_at (voltages sol) t = node_voltage (make_circuit cs r) x t)
           \<and> results sol = map (result_of (make_circuit cs r) x) (components (make_circuit cs r))
           \<and> total_power sol = sum_list (map res_power (results sol))
           \<and> total_power sol = 0"
proof -
  have vs: "\<forall>V \<in> set (of_class VoltageSource (make_circuit cs r)).
              node1 V = node2 V \<longrightarrow> node1 V = reference_node (make_circuit cs r)"
    using assms(1) by (simp add: list_all_iff)
  have s: "solve (circuit_solver (make_circuit cs r)) = Solved sol"
    using assms(2) by (simp only: solve_fp_id)
  have "total_power sol = 0"
    by (rule solved_power_zero [OF make_circuit_ok vs s])
  then show ?thesis
    using solved_exact [OF make_circuit_ok vs s] by blast
qed

theorem power_is_conserved_witness:
  "list_all (\<lambda>V. node1 V = node2 V \<longrightarrow> node1 V = 0)
     (of_class VoltageSource (make_circuit [comp 0 VoltageSource 10 1 0, comp 1 Resistor 1000 1 0] 0))
   \<and> (\<exists>sol x. solve_fp (\<lambda>x. x) (circuit_solver (make_circuit
           [comp 0 VoltageSource 10 1 0, comp 1 Resistor 1000 1 0] 0)) = Solved sol
         \<and> results sol = map (result_of (make_circuit
              [comp 0 VoltageSource 10 1 0, comp 1 Resistor 1000 1 0] 0) x)
             [comp 0 VoltageSource 10 1 0, comp 1 Resistor 1000 1 0]
         \<and> total_power sol = sum_list (map res_power (results sol))
         \<and> total_power sol = 0)"
proof -
  have 1: "list_all (\<lambda>V. node1 V = node2 V \<longrightarrow> node1 V = 0)
     (of_class VoltageSource (make_circuit [comp 0 VoltageSource 10 1 0, comp 1 Resistor 1000 1 0] 0))"
    by (simp add: model_defs)
  have c: "components (make_circuit [comp 0 VoltageSource 10 1 0, comp 1 Resistor 1000 1 0] 0)
         = [comp 0 VoltageSource 10 1 0, comp 1 Resistor 1000 1 0]"
    by (simp add: model_defs)
  from divider_fp_solve obtain sol where
    2: "solve_fp (\<lambda>x. x) (circuit_solver (make_circuit
           [comp 0 VoltageSource 10 1 0, comp 1 Resistor 1000 1 0] 0)) = Solved sol" by blast
  from power_is_conserved [OF 1 2] obtain x where
    3: "results sol = map (result_of (make_circuit
              [comp 0 VoltageSource 10 1 0, comp 1 Resistor 1000 1 0] 0) x)
             [comp 0 VoltageSource 10 1 0, comp 1 Resistor 1000 1 0]"
       "total_power sol = sum_list (map res_power (results sol))"
       "total_power sol = 0"
    unfolding c by blast
  show ?thesis
    by (intro conjI exI [of _ sol] exI [of _ x] 1 2 3)
qed

subsection \<open>Reordering the component list\<close>

lemma two_source_fp_solve:
  "\<exists>sol. solve_fp (\<lambda>x. x) (circuit_solver (make_circuit
       [comp 0 VoltageSource 10 1 0, comp 1 Resistor 1000 1 2, comp 2 VoltageSource 5 2 0] 0))
     = Solved sol"
  unfolding solve_fp_id by (rule two_source_solve)

text \<open>
  C6 (as stated): solving a permutation of the component list gives the same node
  voltages and component powers within \<open>10^-9\<close>. Counterexample: the resistors
  \<open>R(10^6, 1, 0)\<close>, \<open>R(1, 1, 2)\<close>, \<open>R(1000, 1, 0)\<close>, \<open>R(10^6, 2, 0)\<close> with the current
  source \<open>CS(100, 1, 0)\<close>, reference node 0, and the same list with the second and the
  third resistor swapped. In double precision the sum \<open>G[0,0] += 1/R\<close> depends on the
  order by one unit in the last place; the voltage of node 1 moves by more than
  \<open>2 * 10^-8\<close> and the power of \<open>R(1000, 1, 0)\<close> by more than \<open>4 * 10^-6\<close>.
\<close>

theorem reordering_counterexample:
  "mset ladder_swapped = mset ladder
   \<and> distinct (map comp_id ladder)
   \<and> (\<exists>sol sol'.
         solve_fp fl (circuit_solver (make_circuit ladder 0)) = Solved sol
         \<and> solve_fp fl (circuit_solver (make_circuit ladder_swapped 0)) = Solved sol'
         \<and> voltages sol = [(0, 0), (1, - (6858231218024211 / 68719476736)),
                            (2, - (1714556089949963 / 17179869184))]
         \<and> voltages sol' = [(0, 0), (1, - (214319725563209 / 2147483648)),
                             (2, - (6858224359798329 / 68719476736))]
         \<and> map res_id (results sol) = [0, 1, 2, 3, 4]
         \<and> map res_id (results sol') = [0, 2, 1, 3, 4]
         \<and> 2 / 10 ^ 8 < \<bar>voltage_at (voltages sol') 1 - voltage_at (voltages sol) 1\<bar>
         \<and> 4 / 10 ^ 6 < \<bar>res_power (results sol' ! 1) - res_power (results sol ! 2)\<bar>)"
proof -
  from ladder_summary obtain sol where
    s: "solve_fp fl (circuit_solver (make_circuit ladder 0)) = Solved sol"
    and v: "voltages sol = [(0, 0), (1, - (6858231218024211 / 68719476736)), (2, - (1714556089949963 / 17179869184))]"
    and i: "map res_id (results sol) = [0, 1, 2, 3, 4]"
    and u: "map res_voltage (results sol) = [- (6858231218024211 / 68719476736), - (6858224359 / 68719476736), - (6858231218024211 / 68719476736), - (1714556089949963 / 17179869184), - (6858231218024211 / 68719476736)]"
    and c: "map res_current (results sol) = [- (7191376657670955 / 72057594037927936), - (6858224359 / 68719476736), - (877853595907099 / 8796093022208), - (3595684733150745 / 36028797018963968), 100]"
    and p: "map res_power (results sol) = [2737816856235839 / 274877906944, 717700826391311 / 72057594037927936, 5347298547335623 / 536870912, 2737811380610341 / 274877906944, - (5357993139081415 / 536870912)]"
    and t: "total_power sol = 793 / 268435456"
    and f: "\<not> power_balance sol"
    by (elim exE conjE) (rule that; assumption)
  from swapped_summary obtain sol' where
    s': "solve_fp fl (circuit_solver (make_circuit ladder_swapped 0)) = Solved sol'"
    and v': "voltages sol' = [(0, 0), (1, - (214319725563209 / 2147483648)), (2, - (6858224359798329 / 68719476736))]"
    and i': "map res_id (results sol') = [0, 2, 1, 3, 4]"
    and u': "map res_voltage (results sol') = [- (214319725563209 / 2147483648), - (214319725563209 / 2147483648), - (6858224359 / 68719476736), - (6858224359798329 / 68719476736), - (214319725563209 / 2147483648)]"
    and c': "map res_current (results sol') = [- (3595688328834679 / 36028797018963968), - (7022828767255233 / 70368744177664), - (6858224359 / 68719476736), - (7191369466299893 / 72057594037927936), 100]"
    and p': "map res_power (results sol') = [2737816856234623 / 274877906944, 5347298547333249 / 536870912, 717700826391311 / 72057594037927936, 2737811380609125 / 274877906944, - (5357993139080225 / 536870912)]"
    and t': "total_power sol' = 397 / 536870912"
    and f': "\<not> power_balance sol'"
    by (elim exE conjE) (rule that; assumption)
  have m: "mset ladder_swapped = mset ladder"
    by (simp add: ladder_def ladder_swapped_def add_mset_commute)
  have d: "distinct (map comp_id ladder)"
    by (simp add: ladder_def comp_def)
  have dv: "2 / 10 ^ 8 < \<bar>voltage_at (voltages sol') 1 - voltage_at (voltages sol) 1\<bar>"
    unfolding v v' by (simp add: voltage_at_def)
  have l: "length (results sol) = 5" "length (results sol') = 5"
    using arg_cong [OF i, of length] arg_cong [OF i', of length] by simp_all
  have "res_power (results sol ! 2) = map res_power (results sol) ! 2"
    "res_power (results sol' ! 1) = map res_power (results sol') ! 1"
    using l by simp_all
  then have dp: "4 / 10 ^ 6 < \<bar>res_power (results sol' ! 1) - res_power (results sol ! 2)\<bar>"
    unfolding p p' by simp
  show ?thesis
    by (intro conjI exI [of _ sol] exI [of _ sol'] m d s s' v v' i i' dv dp)
qed

text \<open>
  C6 (amended): take a circuit built from a component list with pairwise different ids
  and a reference node, in which no voltage source has both terminals on the same
  non-reference node, and suppose \<open>solve\<close> in exact arithmetic returns a solution. Then
  for every permutation of the component list it returns a solution too, with the same
  node-voltage dict and, component by component, the same result records (id, voltage,
  current and power), listed in the order of the permuted list.
\<close>

theorem reordering_invariance:
  assumes "distinct (map comp_id cs)" and "mset cs' = mset cs"
    and "list_all (\<lambda>V. node1 V = node2 V \<longrightarrow> node1 V = r)
           (of_class VoltageSource (make_circuit cs r))"
    and "solve_fp (\<lambda>x. x) (circuit_solver (make_circuit cs r)) = Solved sol"
  shows "\<exists>sol'. solve_fp (\<lambda>x. x) (circuit_solver (make_circuit cs' r)) = Solved sol'
           \<and> voltages sol' = voltages sol
           \<and> mset (results sol') = mset (results sol)
           \<and> map res_id (results sol') = map comp_id cs'
           \<and> map res_id (results sol) = map comp_id cs"
proof -
  have "mset (map comp_id cs') = mset (map comp_id cs)" using assms(2) by simp
  then have d': "distinct (map comp_id cs')" using assms(1) by (metis mset_eq_imp_distinct_iff)
  have c: "components (make_circuit cs r) = cs" "components (make_circuit cs' r) = cs'"
    by (rule components_make_circuit [OF assms(1)], rule components_make_circuit [OF d'])
  have vs: "\<forall>V \<in> set (of_class VoltageSource (make_circuit cs r)).
              node1 V = node2 V \<longrightarrow> node1 V = reference_node (make_circuit cs r)"
    using assms(3) by (simp add: list_all_iff)
  have e: "solve (circuit_solver (make_circuit cs r)) = Solved sol"
    using assms(4) by (simp only: solve_fp_id)
  from solve_reordered [OF make_circuit_ok make_circuit_ok
      reordered_make_circuit [OF assms(1,2)] vs e]
  obtain sol' x where
    s: "solve (circuit_solver (make_circuit cs' r)) = Solved sol'"
       "voltages sol' = voltages sol"
       "results sol = map (result_of (make_circuit cs r) x) cs"
       "results sol' = map (result_of (make_circuit cs r) x) cs'"
    unfolding c by blast
  have "mset (results sol') = mset (results sol)"
    unfolding s(3,4) mset_map by (simp only: assms(2))
  moreover have "map res_id (results sol') = map comp_id cs'"
    "map res_id (results sol) = map comp_id cs"
    by (simp_all add: s(3,4) result_of_def)
  moreover have "solve_fp (\<lambda>x. x) (circuit_solver (make_circuit cs' r)) = Solved sol'"
    using s(1) by (simp only: solve_fp_id)
  ultimately show ?thesis using s(2) by blast
qed

theorem reordering_invariance_witness:
  "distinct (map comp_id [comp 0 VoltageSource 10 1 0, comp 1 Resistor 1000 1 2,
                          comp 2 VoltageSource 5 2 0])
   \<and> mset [comp 2 VoltageSource 5 2 0, comp 1 Resistor 1000 1 2, comp 0 VoltageSource 10 1 0]
       = mset [comp 0 VoltageSource 10 1 0, comp 1 Resistor 1000 1 2, comp 2 VoltageSource 5 2 0]
   \<and> (\<exists>sol sol'.
         solve_fp (\<lambda>x. x) (circuit_solver (make_circuit
           [comp 0 VoltageSource 10 1 0, comp 1 Resistor 1000 1 2, comp 2 VoltageSource 5 2 0] 0))
           = Solved sol
         \<and> solve_fp (\<lambda>x. x) (circuit_solver (make_circuit
           [comp 2 VoltageSource 5 2 0, comp 1 Resistor 1000 1 2, comp 0 VoltageSource 10 1 0] 0))
           = Solved sol'
         \<and> voltages sol' = voltages sol
         \<and> mset (results sol') = mset (results sol)
         \<and> map res_id (results sol') = [2, 1, 0]
         \<and> map res_id (results sol) = [0, 1, 2])"
proof -
  have 1: "distinct (map comp_id [comp 0 VoltageSource 10 1 0, comp 1 Resistor 1000 1 2,
                          comp 2 VoltageSource 5 2 0])"
    by (simp add: comp_def)
  have 2: "mset [comp 2 VoltageSource 5 2 0, comp 1 Resistor 1000 1 2, comp 0 VoltageSource 10 1 0]
       = mset [comp 0 VoltageSource 10 1 0, comp 1 Resistor 1000 1 2, comp 2 VoltageSource 5 2 0]"
    by (simp add: add_mset_commute)
  have 3: "list_all (\<lambda>V. node1 V = node2 V \<longrightarrow> node1 V = 0)
     (of_class VoltageSource (make_circuit
        [comp 0 VoltageSource 10 1 0, comp 1 Resistor 1000 1 2, comp 2 VoltageSource 5 2 0] 0))"
    by (simp add: model_defs)
  from two_source_fp_solve obtain sol where
    4: "solve_fp (\<lambda>x. x) (circuit_solver (make_circuit
          [comp 0 VoltageSource 10 1 0, comp 1 Resistor 1000 1 2, comp 2 VoltageSource 5 2 0] 0))
        = Solved sol" by blast
  from reordering_invariance [OF 1 2 3 4] obtain sol' where
    5: "solve_fp (\<lambda>x. x) (circuit_solver (make_circuit
        [comp 2 VoltageSource 5 2 0, comp 1 Resistor 1000 1 2, comp 0 VoltageSource 10 1 0] 0))
      = Solved sol'"
    "voltages sol' = voltages sol" "mset (results sol') = mset (results sol)"
    "map res_id (results sol') = [2, 1, 0]" "map res_id (results sol) = [0, 1, 2]"
    by (auto simp: comp_def)
  show ?thesis
    by (intro conjI exI [of _ sol] exI [of _ sol'] 1 2 4 5)
qed

end
